theory Spec2Isabelle
  imports Main
begin

section \<open>The outside world of the IPU provisioning code\<close>

text \<open>
  The code of \<^verbatim>\<open>ipu.py\<close> talks to a Redfish service over HTTPS (the \<^verbatim>\<open>requests\<close>
  library), to remote shells (the \<^verbatim>\<open>host\<close> module), and to the clock. Every such
  call is an \<open>event\<close>; a run appends its events to the \<open>trace\<close> of the world in the
  order the code makes them. What the outside answers is not decided by the code: it
  is given by an environment, a function of the calls made so far and of the call
  being made.
\<close>

datatype json = JNull | JBool bool | JInt int | JStr string | JObj "(string \<times> json) list"

datatype event =
    HttpHead string
  | HttpGet string string string
  | HttpPost string json string string
  | HttpPatch string json string string
  | SshConnect string string string
  | Run string string
  | ReadFile string string
  | WriteFile string string string
  | Ping string
  | WaitPing string
  | Sleep nat
  | RunInContainer string
  | ColdBoot
  | ServerStart string nat
  | ServerStop

text \<open>
  \<open>HttpGet url user password\<close>, \<open>HttpPost url body user password\<close> and
  \<open>HttpPatch url body user password\<close> are the authenticated requests,
  \<open>SshConnect host user password\<close> is \<^verbatim>\<open>ssh_connect\<close>, \<open>Run host cmd\<close>,
  \<open>ReadFile host path\<close> and \<open>WriteFile host path contents\<close> are the calls on a
  connected host, \<open>Sleep n\<close> is \<^verbatim>\<open>time.sleep(n)\<close>.
\<close>

text \<open>The subclasses of \<^verbatim>\<open>requests.exceptions.RequestException\<close>.\<close>

datatype request_error = ConnectionError | Timeout | SSLError | HTTPError nat

datatype runtime_error =
    FailedToDetermineFileSize string
  | TimeoutWaitingInserted string
  | FailedToDetectImcVersion

datatype value_error = IsoDoesNotExist string | UrlHasNoPath string | InvalidUrl string

datatype fatal =
    RequestFailedFatal | JsonParseFatal | TooManyFailures | UnexpectedVersion string
  | NoFirmwareVersion | NoVersionMatch | NoName | FlashFailed | FirmwareMismatch

text \<open>
  The exceptions of the code. \<open>HostError\<close> is whatever a call of the \<^verbatim>\<open>host\<close> module
  raises; \<open>ErrorAndExit\<close> is \<^verbatim>\<open>logger.error_and_exit\<close>, which ends the process and
  is not caught by \<^verbatim>\<open>except Exception\<close>.
\<close>

datatype exc =
    RequestException request_error
  | JSONDecodeError
  | RuntimeError runtime_error
  | ValueError value_error
  | AssertionError
  | ZeroDivisionError
  | HostError
  | ErrorAndExit fatal

fun is_Exception :: "exc \<Rightarrow> bool" where
  "is_Exception (ErrorAndExit _) = False"
| "is_Exception _ = True"

datatype body = NotJson | Json "(string \<times> json) list"

text \<open>
  A response has its status code, what \<^verbatim>\<open>headers.get('Content-Length')\<close> gives, and
  its body. An HTTP call gives a response, or the library raises.
\<close>

record response =
  status_code :: nat
  content_length :: "string option"
  body :: body

datatype http_result = RequestFailed request_error | Responded response

text \<open>
  What a call on a host gives: it raised, or it is done with a return code, standard
  output and standard error (\<^verbatim>\<open>read_file\<close> gives the contents as output).
\<close>

datatype host_result = HostRaised | HostDone int string string

record url_parts =
  scheme :: string
  netloc :: string
  path :: string

record env =
  http :: "event list \<Rightarrow> event \<Rightarrow> http_result"
  host :: "event list \<Rightarrow> event \<Rightarrow> host_result"
  pong :: "event list \<Rightarrow> event \<Rightarrow> bool"
  latency :: "event list \<Rightarrow> event \<Rightarrow> nat"
  urlparse :: "string \<Rightarrow> url_parts option"
  path_exists :: "string \<Rightarrow> bool"
  port_to_ip :: "string \<Rightarrow> string"
  server_port :: nat

record world =
  trace :: "event list"
  now :: nat

text \<open>
  A computation takes the world and gives a result (\<open>Inl\<close> an exception) and the new
  world. \<open>now\<close> is the monotonic clock in seconds; a call takes the time the
  environment says, and a sleep takes at least what was asked.
\<close>

type_synonym 'a io = "world \<Rightarrow> (exc + 'a) \<times> world"

definition io_return :: "'a \<Rightarrow> 'a io" where
  "io_return x w = (Inr x, w)"

definition io_raise :: "exc \<Rightarrow> 'a io" where
  "io_raise e w = (Inl e, w)"

definition io_bind :: "'a io \<Rightarrow> ('a \<Rightarrow> 'b io) \<Rightarrow> 'b io" where
  "io_bind m f w = (case m w of (Inl e, w') \<Rightarrow> (Inl e, w') | (Inr x, w') \<Rightarrow> f x w')"

definition io_seq :: "unit io \<Rightarrow> 'b io \<Rightarrow> 'b io" where
  "io_seq m k = io_bind m (\<lambda>_. k)"

definition io_catch :: "'a io \<Rightarrow> (exc \<Rightarrow> 'a io) \<Rightarrow> 'a io" where
  "io_catch m h w = (case m w of (Inl e, w') \<Rightarrow> h e w' | (Inr x, w') \<Rightarrow> (Inr x, w'))"

definition emit :: "env \<Rightarrow> event \<Rightarrow> world \<Rightarrow> world" where
  "emit E ev w = \<lparr>trace = trace w @ [ev], now = now w + latency E (trace w) ev\<rparr>"

definition sleep :: "env \<Rightarrow> nat \<Rightarrow> unit io" where
  "sleep E n w = (Inr (), (emit E (Sleep n) w)\<lparr>now := now w + n + latency E (trace w) (Sleep n)\<rparr>)"

definition monotonic :: "nat io" where
  "monotonic w = (Inr (now w), w)"

definition http_call :: "env \<Rightarrow> event \<Rightarrow> response io" where
  "http_call E ev w =
     (case http E (trace w) ev of
        RequestFailed e \<Rightarrow> (Inl (RequestException e), emit E ev w)
      | Responded r \<Rightarrow> (Inr r, emit E ev w))"

definition raise_for_status :: "response \<Rightarrow> unit io" where
  "raise_for_status r =
     (if 400 \<le> status_code r \<and> status_code r < 600
      then io_raise (RequestException (HTTPError (status_code r)))
      else io_return ())"

definition response_json :: "response \<Rightarrow> (string \<times> json) list io" where
  "response_json r =
     (case body r of
        Json d \<Rightarrow> io_return d
      | NotJson \<Rightarrow> io_raise JSONDecodeError)"

definition host_call :: "env \<Rightarrow> event \<Rightarrow> (int \<times> string \<times> string) io" where
  "host_call E ev w =
     (case host E (trace w) ev of
        HostRaised \<Rightarrow> (Inl HostError, emit E ev w)
      | HostDone rc out err \<Rightarrow> (Inr (rc, out, err), emit E ev w))"

definition ssh_connect :: "env \<Rightarrow> string \<Rightarrow> string \<Rightarrow> string \<Rightarrow> unit io" where
  "ssh_connect E h u p = io_bind (host_call E (SshConnect h u p)) (\<lambda>_. io_return ())"

definition run :: "env \<Rightarrow> string \<Rightarrow> string \<Rightarrow> (int \<times> string \<times> string) io" where
  "run E h cmd = host_call E (Run h cmd)"

definition read_file :: "env \<Rightarrow> string \<Rightarrow> string \<Rightarrow> string io" where
  "read_file E h p = io_bind (host_call E (ReadFile h p)) (\<lambda>(rc, out, err). io_return out)"

definition write_file :: "env \<Rightarrow> string \<Rightarrow> string \<Rightarrow> string \<Rightarrow> unit io" where
  "write_file E h p c = io_bind (host_call E (WriteFile h p c)) (\<lambda>_. io_return ())"

definition ping :: "env \<Rightarrow> string \<Rightarrow> bool io" where
  "ping E h w = (Inr (pong E (trace w) (Ping h)), emit E (Ping h) w)"

section \<open>Strings as Python handles them\<close>

text \<open>
  Strings are taken to be ASCII. \<open>is_space\<close> is \<^verbatim>\<open>str.isspace\<close> on one character
  (the class \<^verbatim>\<open>\s\<close> of \<^verbatim>\<open>re\<close> on \<^verbatim>\<open>str\<close> is the same set).
\<close>

definition is_space :: "char \<Rightarrow> bool" where
  "is_space c = (let n = (of_char c :: nat) in (9 \<le> n \<and> n \<le> 13) \<or> (28 \<le> n \<and> n \<le> 32))"

definition is_digit :: "char \<Rightarrow> bool" where
  "is_digit c = (let n = (of_char c :: nat) in 48 \<le> n \<and> n \<le> 57)"

definition py_strip :: "string \<Rightarrow> string" where
  "py_strip s = rev (dropWhile is_space (rev (dropWhile is_space s)))"

text \<open>\<^verbatim>\<open>s.split()[0]\<close>: the first run of non-blank characters; \<open>None\<close> is the IndexError.\<close>

definition first_token :: "string \<Rightarrow> string option" where
  "first_token s =
     (let t = takeWhile (\<lambda>c. \<not> is_space c) (dropWhile is_space s)
      in if t = [] then None else Some t)"

text \<open>
  The digits of a decimal literal as \<^verbatim>\<open>int()\<close> reads them: digits, with single
  underscores between digits. \<open>prev\<close> says that the character before was a digit.
\<close>

fun digits_value :: "bool \<Rightarrow> int \<Rightarrow> string \<Rightarrow> int option" where
  "digits_value prev acc [] = (if prev then Some acc else None)"
| "digits_value prev acc (c # cs) =
     (if is_digit c then digits_value True (acc * 10 + (int (of_char c) - 48)) cs
      else if c = CHR ''_'' \<and> prev \<and> cs \<noteq> [] then digits_value False acc cs
      else None)"

text \<open>\<^verbatim>\<open>int(s)\<close> on a string; \<open>None\<close> is the ValueError.\<close>

definition py_int :: "string \<Rightarrow> int option" where
  "py_int s =
     (case py_strip s of
        [] \<Rightarrow> None
      | c # cs \<Rightarrow>
          if c = CHR ''-'' then map_option uminus (digits_value False 0 cs)
          else if c = CHR ''+'' then digits_value False 0 cs
          else digits_value False 0 (c # cs))"

definition starts_with :: "string \<Rightarrow> string \<Rightarrow> bool" where
  "starts_with p s = (take (length p) s = p)"

text \<open>\<^verbatim>\<open>sub in s\<close>\<close>

fun contains :: "string \<Rightarrow> string \<Rightarrow> bool" where
  "contains sub [] = (sub = [])"
| "contains sub (c # cs) = (starts_with sub (c # cs) \<or> contains sub cs)"

text \<open>\<^verbatim>\<open>s.replace(old, new)\<close> for a non-empty \<open>old\<close>.\<close>

fun py_replace :: "string \<Rightarrow> string \<Rightarrow> string \<Rightarrow> string" where
  "py_replace old new [] = []"
| "py_replace old new (c # cs) =
     (if old \<noteq> [] \<and> take (length old) (c # cs) = old
      then new @ py_replace old new (drop (length old) (c # cs))
      else c # py_replace old new cs)"

text \<open>\<^verbatim>\<open>str(n)\<close> for a natural number.\<close>

fun str_nat :: "nat \<Rightarrow> string" where
  "str_nat n =
     (if n < 10 then [char_of (48 + n)]
      else str_nat (n div 10) @ [char_of (48 + n mod 10)])"

text \<open>\<^verbatim>\<open>shlex.quote\<close>\<close>

definition is_safe_char :: "char \<Rightarrow> bool" where
  "is_safe_char c =
     (let n = (of_char c :: nat)
      in (48 \<le> n \<and> n \<le> 57) \<or> (65 \<le> n \<and> n \<le> 90) \<or> (97 \<le> n \<and> n \<le> 122)
         \<or> c \<in> set ''_@%+=:,./-'')"

definition shlex_quote :: "string \<Rightarrow> string" where
  "shlex_quote s =
     (if s = [] then [CHR 0x27, CHR 0x27]
      else if list_all is_safe_char s then s
      else [CHR 0x27]
           @ concat (map (\<lambda>c. if c = CHR 0x27
                               then [CHR 0x27, CHR 0x22, CHR 0x27, CHR 0x22, CHR 0x27]
                               else [c]) s)
           @ [CHR 0x27])"

text \<open>\<^verbatim>\<open>os.path.basename\<close> and \<^verbatim>\<open>os.path.dirname\<close> (POSIX).\<close>

definition basename :: "string \<Rightarrow> string" where
  "basename p = rev (takeWhile (\<lambda>c. c \<noteq> CHR ''/'') (rev p))"

definition dirname :: "string \<Rightarrow> string" where
  "dirname p =
     (let head = rev (dropWhile (\<lambda>c. c \<noteq> CHR ''/'') (rev p))
      in if head \<noteq> [] \<and> \<not> list_all (\<lambda>c. c = CHR ''/'') head
         then rev (dropWhile (\<lambda>c. c = CHR ''/'') (rev head))
         else head)"

text \<open>
  \<^verbatim>\<open>re.search(r"Version: (\S+)", contents)\<close>, group 1: the first place where the
  literal is followed by a non-blank character, and the non-blank run from there.
\<close>

fun search_version :: "string \<Rightarrow> string option" where
  "search_version [] = None"
| "search_version (c # cs) =
     (if starts_with ''Version: '' (c # cs)
         \<and> (case drop 9 (c # cs) of [] \<Rightarrow> False | d # _ \<Rightarrow> \<not> is_space d)
      then Some (takeWhile (\<lambda>d. \<not> is_space d) (drop 9 (c # cs)))
      else search_version cs)"

text \<open>
  Reading a run of digits followed by a dot off the reversed string: the digits (still
  reversed) and what is left.
\<close>

definition digits_dot :: "string \<Rightarrow> (string \<times> string) option" where
  "digits_dot r =
     (let d = takeWhile is_digit r
      in if d = [] then None
         else (case dropWhile is_digit r of
                 c # rest \<Rightarrow> if c = CHR ''.'' then Some (d, rest) else None
               | [] \<Rightarrow> None))"

text \<open>
  \<^verbatim>\<open>re.search(r"^MEV-.*\.([0-9]+\.[0-9]+\.[0-9]+)\.[0-9]+$", s)\<close>, group 1, for a
  stripped \<open>s\<close>: the string ends in four dotted numbers, a dot stands before them, and
  what is before that dot starts with \<^verbatim>\<open>MEV-\<close> and goes on without a newline.
\<close>

definition mev_version :: "string \<Rightarrow> string option" where
  "mev_version s =
     (case digits_dot (rev s) of
        None \<Rightarrow> None
      | Some (d4, r1) \<Rightarrow>
     (case digits_dot r1 of
        None \<Rightarrow> None
      | Some (d3, r2) \<Rightarrow>
     (case digits_dot r2 of
        None \<Rightarrow> None
      | Some (d2, r3) \<Rightarrow>
     (case digits_dot r3 of
        None \<Rightarrow> None
      | Some (d1, r4) \<Rightarrow>
          if starts_with ''MEV-'' (rev r4) \<and> CHR ''\<newline>'' \<notin> set (drop 4 (rev r4))
          then Some (rev d1 @ ''.'' @ rev d2 @ ''.'' @ rev d3)
          else None))))"

text \<open>
  \<^verbatim>\<open>Host.wait_ping\<close> is code of the \<^verbatim>\<open>host\<close> module: it comes back when the host
  answers, and is taken here as one call that comes back or raises.
\<close>

definition wait_ping :: "env \<Rightarrow> string \<Rightarrow> unit io" where
  "wait_ping E h = io_bind (host_call E (WaitPing h)) (\<lambda>_. io_return ())"

section \<open>The BMC client\<close>

record BmcConfig =
  url :: string
  user :: string
  password :: string

record IPUBMC =
  bmc_url :: string
  bmc_user :: string
  bmc_password :: string
  host_bmc :: "unit option"

text \<open>\<^verbatim>\<open>IPUBMC.__init__\<close>\<close>

definition IPUBMC_init :: "BmcConfig \<Rightarrow> unit option \<Rightarrow> IPUBMC" where
  "IPUBMC_init bmc_config hb =
     (let pw = (if password bmc_config = ''calvin'' then ''calvincalvincalvin''
                else password bmc_config)
      in \<lparr>bmc_url = url bmc_config, bmc_user = user bmc_config, bmc_password = pw,
          host_bmc = hb\<rparr>)"

text \<open>\<^verbatim>\<open>IPUBMC._restart_redfish\<close>\<close>

definition restart_redfish :: "env \<Rightarrow> IPUBMC \<Rightarrow> unit io" where
  "restart_redfish E self =
     io_seq (ssh_connect E (bmc_url self) ''root'' '''')
    (io_bind (run E (bmc_url self) ''systemctl restart redfish'') (\<lambda>_.
     sleep E 10))"

text \<open>\<^verbatim>\<open>IPUBMC._create_imc_rsh\<close>: the connected host is named by its address.\<close>

definition create_imc_rsh :: "env \<Rightarrow> IPUBMC \<Rightarrow> string io" where
  "create_imc_rsh E self =
     io_seq (ssh_connect E (bmc_url self) ''root'' '''') (io_return (bmc_url self))"

definition iso_file :: string where
  "iso_file = ''/mnt/imc/acc-os.iso''"

text \<open>\<^verbatim>\<open>IPUBMC._get_file_size\<close>\<close>

definition get_file_size :: "env \<Rightarrow> string \<Rightarrow> string \<Rightarrow> int option io" where
  "get_file_size E rsh filename =
     io_bind
       (io_catch
          (io_bind (run E rsh (''du -b '' @ shlex_quote filename)) (\<lambda>(rc, out, err).
             if rc \<noteq> 0 then io_return None
             else (case first_token out of
                     None \<Rightarrow> io_return None
                   | Some t \<Rightarrow> io_return (py_int t))))
          (\<lambda>e. if is_Exception e then io_return None else io_raise e))
       (\<lambda>r. case r of
               None \<Rightarrow> io_return None
             | Some val \<Rightarrow> if val < 0 then io_return None else io_return (Some val))"

text \<open>\<^verbatim>\<open>IPUBMC._cleanup_iso\<close>\<close>

definition cleanup_iso :: "env \<Rightarrow> IPUBMC \<Rightarrow> unit io" where
  "cleanup_iso E self =
     io_bind (create_imc_rsh E self) (\<lambda>imc.
     io_bind (run E imc ''rm -f /mnt/imc/acc-os.iso'') (\<lambda>_. io_return ()))"

text \<open>\<^verbatim>\<open>extract_server\<close>, \<^verbatim>\<open>url_extract_filename\<close> and \<^verbatim>\<open>url_get_size\<close>\<close>

definition extract_server :: "env \<Rightarrow> string \<Rightarrow> string io" where
  "extract_server E u =
     (case urlparse E u of
        None \<Rightarrow> io_raise (ValueError (InvalidUrl u))
      | Some parsed_url \<Rightarrow> io_return (takeWhile (\<lambda>c. c \<noteq> CHR '':'') (netloc parsed_url)))"

definition url_extract_filename :: "env \<Rightarrow> string \<Rightarrow> string io" where
  "url_extract_filename E u =
     (case urlparse E u of
        None \<Rightarrow> io_raise (ValueError (InvalidUrl u))
      | Some parsed_url \<Rightarrow>
          if path parsed_url = [] then io_raise (ValueError (UrlHasNoPath u))
          else io_return (basename (path parsed_url)))"

definition url_get_size :: "env \<Rightarrow> string \<Rightarrow> int option io" where
  "url_get_size E iso_path =
     io_bind
       (io_catch
          (io_bind (http_call E (HttpHead iso_path)) (\<lambda>response.
             (case content_length response of
                None \<Rightarrow> io_return None
              | Some header_value \<Rightarrow> io_return (py_int (py_strip header_value)))))
          (\<lambda>e. if is_Exception e then io_return None else io_raise e))
       (\<lambda>r. case r of
               None \<Rightarrow> io_return None
             | Some val \<Rightarrow> if val < 0 then io_return None else io_return (Some val))"

text \<open>\<^verbatim>\<open>IPUBMC._requests_get\<close>, \<^verbatim>\<open>_requests_post\<close> and \<^verbatim>\<open>_requests_patch\<close>\<close>

definition requests_get :: "env \<Rightarrow> IPUBMC \<Rightarrow> string \<Rightarrow> (string \<times> json) list io" where
  "requests_get E self u =
     io_catch
       (io_bind (http_call E (HttpGet u (bmc_user self) (bmc_password self))) (\<lambda>response.
        io_seq (raise_for_status response) (response_json response)))
       (\<lambda>e. case e of
               RequestException _ \<Rightarrow> io_raise (ErrorAndExit RequestFailedFatal)
             | JSONDecodeError \<Rightarrow> io_raise (ErrorAndExit JsonParseFatal)
             | _ \<Rightarrow> io_raise e)"

definition requests_post :: "env \<Rightarrow> IPUBMC \<Rightarrow> string \<Rightarrow> json \<Rightarrow> unit io" where
  "requests_post E self u data =
     io_catch
       (io_bind (http_call E (HttpPost u data (bmc_user self) (bmc_password self)))
          raise_for_status)
       (\<lambda>e. case e of RequestException _ \<Rightarrow> io_return () | _ \<Rightarrow> io_raise e)"

definition requests_patch :: "env \<Rightarrow> IPUBMC \<Rightarrow> string \<Rightarrow> json \<Rightarrow> unit io" where
  "requests_patch E self u data =
     io_catch
       (io_bind (http_call E (HttpPatch u data (bmc_user self) (bmc_password self)))
          raise_for_status)
       (\<lambda>e. case e of RequestException _ \<Rightarrow> io_return () | _ \<Rightarrow> io_raise e)"

definition redfish_url :: "IPUBMC \<Rightarrow> string \<Rightarrow> string" where
  "redfish_url self p = ''https://'' @ bmc_url self @ '':8443/redfish/v1/'' @ p"

text \<open>\<^verbatim>\<open>IPUBMC._redfish_available\<close>\<close>

definition redfish_available :: "env \<Rightarrow> IPUBMC \<Rightarrow> string \<Rightarrow> bool io" where
  "redfish_available E self u =
     io_catch
       (io_bind
          (http_call E (HttpGet (''https://'' @ u @ '':8443/redfish/v1/Systems/1'')
                          (bmc_user self) (bmc_password self)))
          (\<lambda>response. io_seq (raise_for_status response) (io_return True)))
       (\<lambda>e. case e of
               RequestException _ \<Rightarrow> io_return False
             | JSONDecodeError \<Rightarrow> io_return False
             | _ \<Rightarrow> io_raise e)"

text \<open>\<^verbatim>\<open>IPUBMC._virtual_media_is_inserted\<close>\<close>

definition virtual_media_is_inserted :: "env \<Rightarrow> IPUBMC \<Rightarrow> string \<Rightarrow> bool io" where
  "virtual_media_is_inserted E self filename =
     io_bind (requests_get E self (redfish_url self ''Systems/1/VirtualMedia/1'')) (\<lambda>data.
       (case map_of data ''Inserted'' of
          Some (JBool True) \<Rightarrow>
            (case map_of data ''ImageName'' of
               Some (JStr image_name) \<Rightarrow> io_return (image_name = filename)
             | _ \<Rightarrow> io_return False)
        | _ \<Rightarrow> io_return False))"

text \<open>
  \<^verbatim>\<open>log_progress\<close> of \<^verbatim>\<open>_wait_iso_downloaded\<close>: the size read is only logged; the
  percentage divides by the expected size.
\<close>

definition log_progress :: "env \<Rightarrow> string \<Rightarrow> int \<Rightarrow> unit io" where
  "log_progress E imc expected_size =
     io_bind (get_file_size E imc iso_file) (\<lambda>fs.
       let downloaded_size = (case fs of None \<Rightarrow> 0 | Some n \<Rightarrow> n)
       in if expected_size = 0 then io_raise ZeroDivisionError else io_return ())"

subsection \<open>Time only moves forward\<close>

definition forward :: "'a io \<Rightarrow> bool" where
  "forward m = (\<forall>w. now w \<le> now (snd (m w)))"

lemma forward_return: "forward (io_return x)"
  by (simp add: forward_def io_return_def)

lemma forward_raise: "forward (io_raise e)"
  by (simp add: forward_def io_raise_def)

lemma forward_bind:
  assumes "forward m" and "\<And>x. forward (f x)"
  shows "forward (io_bind m f)"
proof -
  have "now w \<le> now (snd (io_bind m f w))" for w
  proof (cases "m w")
    case (Pair r w')
    have a: "now w \<le> now w'" using assms(1) Pair by (auto simp: forward_def dest: spec [of _ w])
    show ?thesis
    proof (cases r)
      case (Inl e)
      then show ?thesis using a Pair by (simp add: io_bind_def)
    next
      case (Inr x)
      have "now w' \<le> now (snd (f x w'))" using assms(2) by (simp add: forward_def)
      then show ?thesis using a Pair Inr by (simp add: io_bind_def)
    qed
  qed
  then show ?thesis by (simp add: forward_def)
qed

lemma forward_seq: "forward m \<Longrightarrow> forward k \<Longrightarrow> forward (io_seq m k)"
  by (simp add: io_seq_def forward_bind)

lemma forward_catch:
  assumes "forward m" and "\<And>e. forward (h e)"
  shows "forward (io_catch m h)"
proof -
  have "now w \<le> now (snd (io_catch m h w))" for w
  proof (cases "m w")
    case (Pair r w')
    have a: "now w \<le> now w'" using assms(1) Pair by (auto simp: forward_def dest: spec [of _ w])
    show ?thesis
    proof (cases r)
      case (Inl e)
      have "now w' \<le> now (snd (h e w'))" using assms(2) by (simp add: forward_def)
      then show ?thesis using a Pair Inl by (simp add: io_catch_def)
    next
      case (Inr x)
      then show ?thesis using a Pair by (simp add: io_catch_def)
    qed
  qed
  then show ?thesis by (simp add: forward_def)
qed

lemma forward_http_call: "forward (http_call E ev)"
  by (simp add: forward_def http_call_def emit_def split: http_result.split)

lemma forward_host_call: "forward (host_call E ev)"
  by (simp add: forward_def host_call_def emit_def split: host_result.split)

lemma forward_raise_for_status: "forward (raise_for_status r)"
  by (simp add: raise_for_status_def forward_return forward_raise)

lemma forward_response_json: "forward (response_json r)"
  by (simp add: response_json_def forward_return forward_raise split: body.split)

lemma forward_requests_get: "forward (requests_get E self u)"
  unfolding requests_get_def
  by (intro forward_catch forward_bind forward_seq forward_http_call forward_raise_for_status
        forward_response_json)
     (simp add: forward_return forward_raise split: exc.split)

lemma forward_virtual_media_is_inserted: "forward (virtual_media_is_inserted E self f)"
  unfolding virtual_media_is_inserted_def
  by (intro forward_bind forward_requests_get)
     (simp add: forward_return split: option.split json.split bool.split)

lemma forward_get_file_size: "forward (get_file_size E rsh f)"
  unfolding get_file_size_def run_def
  by (intro forward_bind forward_catch forward_host_call)
     (auto simp: forward_return forward_raise split: option.split)

lemma forward_log_progress: "forward (log_progress E imc n)"
  unfolding log_progress_def
  by (intro forward_bind forward_get_file_size) (simp add: forward_return forward_raise)

lemma sleep_now: "now w + n \<le> now (snd (sleep E n w))"
  by (simp add: sleep_def emit_def)

subsection \<open>Waiting for the media, inserting it, booting from it\<close>

text \<open>
  The loop of \<^verbatim>\<open>IPUBMC._wait_iso_downloaded\<close>: it goes on while the service does not
  report the media inserted; each round sleeps 10 seconds, gives up at the deadline,
  and logs the progress every sixth round.
\<close>

function wait_loop ::
  "env \<Rightarrow> IPUBMC \<Rightarrow> string \<Rightarrow> int \<Rightarrow> string \<Rightarrow> string \<Rightarrow> nat \<Rightarrow> nat \<Rightarrow> unit io" where
  "wait_loop E self iso_path expected_size filename imc wait_until loop_count w =
     (case virtual_media_is_inserted E self filename w of
        (Inl e, w1) \<Rightarrow> (Inl e, w1)
      | (Inr True, w1) \<Rightarrow> (Inr (), w1)
      | (Inr False, w1) \<Rightarrow>
          (case sleep E 10 w1 of
             (Inl e, w2) \<Rightarrow> (Inl e, w2)
           | (Inr _, w2) \<Rightarrow>
               if now w2 \<ge> wait_until
               then (Inl (RuntimeError (TimeoutWaitingInserted iso_path)), w2)
               else (case (if loop_count mod 6 = 0 then log_progress E imc expected_size
                           else io_return ()) w2 of
                       (Inl e, w3) \<Rightarrow> (Inl e, w3)
                     | (Inr _, w3) \<Rightarrow>
                         wait_loop E self iso_path expected_size filename imc wait_until
                           (loop_count + 1) w3)))"
  by pat_completeness auto
termination
proof (relation "measure (\<lambda>(E, self, iso_path, expected_size, filename, imc, wait_until,
                            loop_count, w). wait_until - now w)")
  show "wf (measure (\<lambda>(E, self, iso_path, expected_size, filename, imc, wait_until,
                       loop_count, w). wait_until - now w))"
    by simp
next
  fix E self iso_path expected_size filename imc wait_until loop_count w
  fix x1 :: "exc + bool" and w1 :: world and b :: bool
  fix x2 :: "exc + unit" and w2 :: world and u :: unit
  fix x3 :: "exc + unit" and w3 :: world and u3 :: unit
  assume a1: "(x1, w1) = virtual_media_is_inserted E self filename w"
    and a2: "(x2, w2) = sleep E 10 w1"
    and a3: "\<not> wait_until \<le> now w2"
    and a4: "(x3, w3) =
             (if loop_count mod 6 = 0 then log_progress E imc expected_size else io_return ()) w2"
  have "now w \<le> now (snd (virtual_media_is_inserted E self filename w))"
    using forward_virtual_media_is_inserted by (simp add: forward_def)
  then have b1: "now w \<le> now w1" using a1 by (metis snd_conv)
  have "now w1 + 10 \<le> now (snd (sleep E 10 w1))" by (rule sleep_now)
  then have b2: "now w1 + 10 \<le> now w2" using a2 by (metis snd_conv)
  have "forward (if loop_count mod 6 = 0 then log_progress E imc expected_size else io_return ())"
    by (simp add: forward_log_progress forward_return)
  then have "now w2 \<le> now (snd ((if loop_count mod 6 = 0 then log_progress E imc expected_size
                                   else io_return ()) w2))"
    by (simp add: forward_def)
  then have b3: "now w2 \<le> now w3" using a4 by (metis snd_conv)
  show "((E, self, iso_path, expected_size, filename, imc, wait_until, loop_count + 1, w3),
         (E, self, iso_path, expected_size, filename, imc, wait_until, loop_count, w))
        \<in> measure (\<lambda>(E, self, iso_path, expected_size, filename, imc, wait_until,
                       loop_count, w). wait_until - now w)"
    using b1 b2 b3 a3 by simp
qed

declare wait_loop.simps [simp del]

text \<open>\<^verbatim>\<open>IPUBMC._wait_iso_downloaded\<close>\<close>

definition wait_iso_downloaded :: "env \<Rightarrow> IPUBMC \<Rightarrow> string \<Rightarrow> int \<Rightarrow> unit io" where
  "wait_iso_downloaded E self iso_path expected_size =
     io_bind monotonic (\<lambda>t.
     let wait_until = t + 3600 in
     io_bind (url_extract_filename E iso_path) (\<lambda>filename.
     io_bind (create_imc_rsh E self) (\<lambda>imc.
     wait_loop E self iso_path expected_size filename imc wait_until 0)))"

definition insert_media_body :: "string \<Rightarrow> json" where
  "insert_media_body iso_path =
     JObj [(''Image'', JStr iso_path), (''TransferMethod'', JStr ''Upload'')]"

definition insert_media_url :: "IPUBMC \<Rightarrow> string" where
  "insert_media_url self =
     redfish_url self ''Systems/1/VirtualMedia/1/Actions/VirtualMedia.InsertMedia''"

text \<open>\<^verbatim>\<open>IPUBMC._insert_media\<close>\<close>

definition insert_media :: "env \<Rightarrow> IPUBMC \<Rightarrow> string \<Rightarrow> int \<Rightarrow> unit io" where
  "insert_media E self iso_path expected_size =
     io_seq (requests_post E self (insert_media_url self) (insert_media_body iso_path))
            (wait_iso_downloaded E self iso_path expected_size)"

definition override_cd_body :: json where
  "override_cd_body =
     JObj [(''Boot'', JObj [(''BootSourceOverrideEnabled'', JStr ''Once''),
                            (''BootSourceOverrideTarget'', JStr ''Cd'')])]"

definition override_disabled_body :: json where
  "override_disabled_body =
     JObj [(''Boot'', JObj [(''BootSourceOverrideEnabled'', JStr ''Disabled'')])]"

text \<open>\<^verbatim>\<open>IPUBMC._bootsource_override_cd\<close>, \<^verbatim>\<open>_reboot\<close>, \<^verbatim>\<open>_unset_bootsource_override\<close>\<close>

definition bootsource_override_cd :: "env \<Rightarrow> IPUBMC \<Rightarrow> unit io" where
  "bootsource_override_cd E self =
     requests_patch E self (redfish_url self ''Systems/1'') override_cd_body"

definition reboot :: "env \<Rightarrow> IPUBMC \<Rightarrow> unit io" where
  "reboot E self =
     requests_post E self (redfish_url self ''Managers/1/Actions/Manager.Reset'')
       (JObj [(''ResetType'', JStr ''ForceRestart'')])"

definition unset_bootsource_override :: "env \<Rightarrow> IPUBMC \<Rightarrow> unit io" where
  "unset_bootsource_override E self =
     requests_patch E self (redfish_url self ''Systems/1'') override_disabled_body"

text \<open>The script that \<^verbatim>\<open>IPUBMC._prepare_imc\<close> writes to the console.\<close>

definition pre_init_script :: string where
  \<open>pre_init_script =
''\<newline>#!/bin/sh\<newline>\<newline>CURDIR=$(pwd)\<newline>WORKDIR=`dirname $(realpath $0)`\<newline>\<newline>if [ -d "$WORKDIR" ]; then\<newline>    cd $WORKDIR\<newline>    if [ -e load_custom_pkg.sh ]; then\<newline>        # Fix up the cp_init.cfg file\<newline>        ./load_custom_pkg.sh\<newline>    fi\<newline>fi\<newline>cd $CURDIR\<newline>date -s "Thu Sep 19 08:18:22 AM EDT 2024"\<newline>cp /work/redfish/certs/server.key /etc/pki/ca-trust/source/anchors/\<newline>cp /work/redfish/certs/server.crt /etc/pki/ca-trust/source/anchors/\<newline>rm -rf /home/root/MtRemoteRunner # workaround to free up some space: https://issues.redhat.com/browse/IIC-372\<newline>update-ca-trust\<newline>sleep 10 # wait for ip address so that redfish starts with that in place\<newline>systemctl restart redfish\<newline>        ''\<close>

text \<open>\<^verbatim>\<open>IPUBMC._prepare_imc\<close>\<close>

definition prepare_imc :: "env \<Rightarrow> IPUBMC \<Rightarrow> string \<Rightarrow> unit io" where
  \<open>prepare_imc E self server_with_key =
     io_seq (ssh_connect E server_with_key ''root'' ''redhat'')
    (io_bind (create_imc_rsh E self) (\<lambda>imc.
     io_bind (run E imc ''mkdir -pm 0700 /work/redfish/certs'') (\<lambda>_.
     io_bind (run E imc ''chmod 0700 /work/redfish'') (\<lambda>_.
     io_bind (run E imc ''chmod 0700 /work/redfish/certs'') (\<lambda>_.
     io_bind (read_file E server_with_key ''/root/.local-container-registry/domain.crt'') (\<lambda>crt.
     io_seq (write_file E imc ''/work/redfish/certs/server.crt'' crt)
    (io_bind (read_file E server_with_key ''/root/.local-container-registry/domain.key'') (\<lambda>key.
     io_seq (write_file E imc ''/work/redfish/certs/server.key'' key)
    (io_seq (write_file E imc ''/work/scripts/pre_init_app.sh'' pre_init_script)
    (io_bind (run E imc
        ''/usr/bin/imc-scripts/cfg_boot_options "init_app_acc_nboot_net_name" "enp0s1f0"'') (\<lambda>_.
     io_bind (run E imc
        ''/usr/bin/imc-scripts/cfg_boot_options "init_app_acc_nboot_stage"  "2"'') (\<lambda>_.
     io_bind (read_file E imc ''/mnt/imc/acc_variable/acc-config.json'') (\<lambda>acc_config.
     io_seq (write_file E imc ''/mnt/imc/acc_variable/acc-config.json''
        (py_replace ''"acc_watchdog_timer": 60'' ''"acc_watchdog_timer": 9999'' acc_config))
    (io_bind (run E imc ''mkdir -m 0700 /work/redfish'') (\<lambda>_.
     io_bind (run E imc ''cp /etc/imc-redfish-configuration.json /work/redfish/'') (\<lambda>_.
     io_bind (run E imc (''echo '' @ bmc_password self
        @ '' | bash /usr/bin/ipu-redfish-generate-password-hash.sh'')) (\<lambda>_.
     io_bind (run E imc ''reboot'') (\<lambda>_.
     io_seq (sleep E 10)
            (wait_ping E imc)))))))))))))))))))\<close>

text \<open>\<^verbatim>\<open>matching_url\<close> and \<^verbatim>\<open>same_size\<close> of \<^verbatim>\<open>boot_iso_with_redfish\<close>\<close>

definition imc_url_path :: string where
  "imc_url_path = ''/work/url''"

definition matching_url :: "env \<Rightarrow> string \<Rightarrow> string \<Rightarrow> bool io" where
  "matching_url E imc iso_path =
     io_catch
       (io_bind (read_file E imc imc_url_path) (\<lambda>contents. io_return (contents = iso_path)))
       (\<lambda>e. if is_Exception e then io_return False else io_raise e)"

definition same_size :: "env \<Rightarrow> string \<Rightarrow> int \<Rightarrow> bool io" where
  "same_size E imc expected_size =
     io_bind (get_file_size E imc iso_file) (\<lambda>fs.
       io_return (case fs of None \<Rightarrow> False | Some n \<Rightarrow> expected_size = n))"

text \<open>
  \<^verbatim>\<open>IPUBMC.boot_iso_with_redfish\<close>. The test
  \<^verbatim>\<open>not matching_url(imc) or not same_size(imc, expected_size)\<close> asks for the size only
  when the URL matches.
\<close>

definition boot_iso_with_redfish :: "env \<Rightarrow> IPUBMC \<Rightarrow> string \<Rightarrow> unit io" where
  "boot_iso_with_redfish E self iso_path =
     io_bind (url_get_size E iso_path) (\<lambda>size_opt.
     case size_opt of
       None \<Rightarrow> io_raise (RuntimeError (FailedToDetermineFileSize iso_path))
     | Some expected_size \<Rightarrow>
         io_bind (extract_server E iso_path) (\<lambda>server.
         io_seq (prepare_imc E self server)
        (io_seq (restart_redfish E self)
        (io_bind (create_imc_rsh E self) (\<lambda>imc.
         io_bind (matching_url E imc iso_path) (\<lambda>m.
         io_bind (if m then same_size E imc expected_size else io_return False) (\<lambda>same.
         io_seq (if \<not> m \<or> \<not> same
                 then io_seq (cleanup_iso E self)
                             (insert_media E self iso_path expected_size)
                 else io_return ())
        (io_seq (write_file E imc imc_url_path iso_path)
        (io_seq (bootsource_override_cd E self)
        (io_seq (reboot E self)
        (io_seq (sleep E (5 * 60))
        (io_seq (restart_redfish E self)
                (unset_bootsource_override E self)))))))))))))"

subsection \<open>Firmware version and card identity\<close>

text \<open>\<^verbatim>\<open>IPUBMC._redfish_version\<close> and \<^verbatim>\<open>IPUBMC._redfish_name\<close>\<close>

definition redfish_version :: "env \<Rightarrow> IPUBMC \<Rightarrow> string io" where
  "redfish_version E self =
     io_bind (requests_get E self (redfish_url self ''Managers/1'')) (\<lambda>data.
       (case map_of data ''FirmwareVersion'' of
          Some (JStr fwversion) \<Rightarrow>
            (case mev_version (py_strip fwversion) of
               None \<Rightarrow> io_raise (ErrorAndExit NoVersionMatch)
             | Some v \<Rightarrow> io_return v)
        | _ \<Rightarrow> io_raise (ErrorAndExit NoFirmwareVersion)))"

definition redfish_name :: "env \<Rightarrow> IPUBMC \<Rightarrow> string io" where
  "redfish_name E self =
     io_bind (requests_get E self (redfish_url self [])) (\<lambda>data.
       (case map_of data ''Name'' of
          Some (JStr name) \<Rightarrow> io_return name
        | _ \<Rightarrow> io_raise (ErrorAndExit NoName)))"

text \<open>\<^verbatim>\<open>IPUBMC._version_via_ssh\<close>\<close>

definition version_via_ssh :: "env \<Rightarrow> IPUBMC \<Rightarrow> string option io" where
  "version_via_ssh E self =
     io_bind
       (io_catch
          (io_seq (ssh_connect E (bmc_url self) ''root'' []) (io_return True))
          (\<lambda>e. if is_Exception e then io_return False else io_raise e))
       (\<lambda>connected.
          if \<not> connected then io_return None
          else io_bind (read_file E (bmc_url self) ''/etc/issue'') (\<lambda>contents.
                 io_return (map_option py_strip (search_version contents))))"

text \<open>\<^verbatim>\<open>IPUBMC.version\<close>\<close>

definition version :: "env \<Rightarrow> IPUBMC \<Rightarrow> string io" where
  "version E self =
     io_bind (redfish_available E self (bmc_url self)) (\<lambda>available.
       if available then redfish_version E self
       else io_bind (version_via_ssh E self) (\<lambda>fwversion.
              (case fwversion of
                 None \<Rightarrow> io_raise (RuntimeError FailedToDetectImcVersion)
               | Some v \<Rightarrow>
                   if v = [] then io_raise (RuntimeError FailedToDetectImcVersion)
                   else io_return v)))"

text \<open>\<^verbatim>\<open>IPUBMC.is_ipu\<close>\<close>

definition is_ipu :: "env \<Rightarrow> IPUBMC \<Rightarrow> bool io" where
  "is_ipu E self =
     io_bind (redfish_available E self (bmc_url self)) (\<lambda>available.
       if available
       then io_bind (redfish_name E self) (\<lambda>name. io_return (contains ''Intel IPU'' name))
       else io_bind (version_via_ssh E self) (\<lambda>v. io_return (v \<noteq> None)))"

subsection \<open>Firmware upgrade\<close>

text \<open>\<^verbatim>\<open>IPUBMC.cold_boot\<close>: the cold boot of the host's BMC is one call of the outside.\<close>

definition cold_boot :: "env \<Rightarrow> IPUBMC \<Rightarrow> unit io" where
  "cold_boot E self =
     (case host_bmc self of
        None \<Rightarrow> io_raise AssertionError
      | Some _ \<Rightarrow> io_bind (host_call E ColdBoot) (\<lambda>_. sleep E 20))"

text \<open>\<^verbatim>\<open>firmware_is_same\<close> of \<^verbatim>\<open>ensure_firmware\<close>\<close>

definition firmware_is_same :: "env \<Rightarrow> IPUBMC \<Rightarrow> string \<Rightarrow> bool io" where
  "firmware_is_same E self ver =
     io_seq (ssh_connect E (bmc_url self) (bmc_user self) (bmc_password self))
    (io_bind (run E (bmc_url self) ''cat /etc/issue.net'') (\<lambda>(rc, out, err).
       io_return (contains ver out)))"

definition fw_up_cmd :: "IPUBMC \<Rightarrow> string \<Rightarrow> string" where
  "fw_up_cmd self ver =
     ''--dpu-type ipu --imc-address '' @ bmc_url self @ '' firmware up --version '' @ ver"

text \<open>
  \<^verbatim>\<open>IPUBMC.ensure_firmware\<close>. The test \<^verbatim>\<open>force or (not firmware_is_same())\<close> reads the
  banner only when \<open>force\<close> is false.
\<close>

definition ensure_firmware :: "env \<Rightarrow> IPUBMC \<Rightarrow> bool \<Rightarrow> string \<Rightarrow> unit io" where
  "ensure_firmware E self force ver =
     io_bind (is_ipu E self) (\<lambda>ipu.
       if \<not> ipu then io_raise AssertionError
       else
         io_bind (if force then io_return True
                  else io_bind (firmware_is_same E self ver) (\<lambda>same. io_return (\<not> same)))
           (\<lambda>proceed.
              if \<not> proceed then io_return ()
              else
                io_bind (host_call E (RunInContainer (fw_up_cmd self ver))) (\<lambda>(rc, out, err).
                  if rc \<noteq> 0 then io_raise (ErrorAndExit FlashFailed)
                  else
                    io_seq (cold_boot E self)
                   (io_bind (firmware_is_same E self ver) (\<lambda>same.
                      if \<not> same then io_raise (ErrorAndExit FirmwareMismatch)
                      else io_return ())))))"

section \<open>The cluster node\<close>

record NodeConfig =
  ip :: "string option"
  bmc :: "BmcConfig option"
  dpu_host :: "string option"

record IPUClusterNode =
  external_port :: string
  network_api_port :: string
  config :: NodeConfig

text \<open>
  The escalation of \<^verbatim>\<open>_wait_for_acc_with_retry\<close>: log into the console with the
  configured credentials and reboot it.
\<close>

definition reboot_imc :: "env \<Rightarrow> IPUClusterNode \<Rightarrow> unit io" where
  "reboot_imc E self =
     (case bmc (config self) of
        None \<Rightarrow> io_raise AssertionError
      | Some b \<Rightarrow>
          io_seq (ssh_connect E (url b) (user b) (password b))
                 (io_bind (run E (url b) ''reboot'') (\<lambda>_. io_return ())))"

text \<open>
  The loop of \<^verbatim>\<open>IPUClusterNode._wait_for_acc_with_retry\<close>. Nothing in the loop itself
  bounds it for every count of failures, so it is a partial function: \<open>None\<close> would be
  a run that never comes back.
\<close>

partial_function (option) acc_loop ::
  "env \<Rightarrow> IPUClusterNode \<Rightarrow> string \<Rightarrow> int \<Rightarrow> nat \<Rightarrow> world \<Rightarrow> ((exc + unit) \<times> world) option"
  where
  "acc_loop E self acc timeout failures w =
     (case ping E acc w of
        (Inl e, w1) \<Rightarrow> Some (Inl e, w1)
      | (Inr responded, w1) \<Rightarrow>
          if responded then Some (Inr (), w1)
          else
          (case sleep E 20 w1 of
             (Inl e, w2) \<Rightarrow> Some (Inl e, w2)
           | (Inr _, w2) \<Rightarrow>
               if timeout - 20 \<le> 0
               then if failures + 1 = 5
                    then Some (Inl (ErrorAndExit TooManyFailures), w2)
                    else (case reboot_imc E self w2 of
                            (Inl e, w3) \<Rightarrow> Some (Inl e, w3)
                          | (Inr _, w3) \<Rightarrow> acc_loop E self acc 240 (failures + 1) w3)
               else acc_loop E self acc (timeout - 20) failures w2))"

text \<open>\<^verbatim>\<open>IPUClusterNode._wait_for_acc_with_retry\<close>\<close>

definition wait_for_acc_with_retry ::
  "env \<Rightarrow> IPUClusterNode \<Rightarrow> string \<Rightarrow> int \<Rightarrow> world \<Rightarrow> ((exc + unit) \<times> world) option" where
  "wait_for_acc_with_retry E self acc timeout w =
     (case acc_loop E self acc timeout 0 w of
        None \<Rightarrow> None
      | Some (Inl e, w1) \<Rightarrow> Some (Inl e, w1)
      | Some (Inr _, w1) \<Rightarrow>
          Some (io_seq (ssh_connect E acc ''root'' ''redhat'')
                  (io_bind (run E acc ''uname -a'') (\<lambda>_. io_return ())) w1))"

text \<open>\<^verbatim>\<open>is_http_url\<close>\<close>

definition is_http_url :: "env \<Rightarrow> string \<Rightarrow> bool" where
  "is_http_url E u =
     (case urlparse E u of
        None \<Rightarrow> False
      | Some result \<Rightarrow> scheme result \<noteq> [] \<and> netloc result \<noteq> [])"

text \<open>\<^verbatim>\<open>helper\<close> of \<^verbatim>\<open>_redfish_boot_ipu\<close>\<close>

definition helper :: "env \<Rightarrow> NodeConfig \<Rightarrow> string \<Rightarrow> unit io" where
  "helper E node iso_address =
     (case bmc node of
        None \<Rightarrow> io_raise AssertionError
      | Some b \<Rightarrow> boot_iso_with_redfish E (IPUBMC_init b None) iso_address)"

text \<open>
  \<^verbatim>\<open>IPUClusterNode._redfish_boot_ipu\<close>. A local file is served over HTTP for the time of
  the boot call; the server is stopped on every way out of the \<^verbatim>\<open>with\<close> block.
\<close>

definition redfish_boot_ipu :: "env \<Rightarrow> IPUClusterNode \<Rightarrow> string \<Rightarrow> NodeConfig \<Rightarrow> string \<Rightarrow> unit io"
  where
  "redfish_boot_ipu E self ext_port node iso_arg =
     (if is_http_url E iso_arg then helper E node iso_arg
      else if \<not> path_exists E iso_arg then io_raise (ValueError (IsoDoesNotExist iso_arg))
      else
        (let serve_path = dirname iso_arg;
             iso_name = basename iso_arg;
             lh_ip = port_to_ip E ext_port;
             iso_address = ''http://'' @ lh_ip @ '':'' @ str_nat (server_port E) @ ''/'' @ iso_name
         in (\<lambda>w. case helper E node iso_address (emit E (ServerStart serve_path 8000) w) of
                    (r, w1) \<Rightarrow> (r, emit E ServerStop w1))))"

text \<open>\<^verbatim>\<open>IPUClusterNode._boot_iso\<close>\<close>

definition boot_iso ::
  "env \<Rightarrow> IPUClusterNode \<Rightarrow> string \<Rightarrow> world \<Rightarrow> ((exc + unit) \<times> world) option" where
  "boot_iso E self iso_arg w =
     (case ip (config self) of
        None \<Rightarrow> Some (Inl AssertionError, w)
      | Some addr \<Rightarrow>
          if addr = [] then Some (Inl AssertionError, w)
          else (case redfish_boot_ipu E self (external_port self) (config self) iso_arg w of
                  (Inl e, w1) \<Rightarrow> Some (Inl e, w1)
                | (Inr _, w1) \<Rightarrow> wait_for_acc_with_retry E self addr 1200 w1))"

section \<open>What a run does, seen through its key events\<close>

text \<open>
  The claims speak of a few kinds of calls: deleting the stale image, the InsertMedia
  action, the two boot-source override PATCHes, the reset, a liveness ping, the flash
  and the cold boot. \<open>key_of\<close> recognises them; every other event is no key.
\<close>

datatype key = KCleanup | KInsert | KEnable | KReset | KDisable | KPing | KFlash | KColdBoot

definition ends_with :: "string \<Rightarrow> string \<Rightarrow> bool" where
  "ends_with suf s = starts_with (rev suf) (rev s)"

text \<open>The field \<open>k\<close> of the \<^verbatim>\<open>Boot\<close> object of a PATCH body.\<close>

definition boot_field :: "json \<Rightarrow> string \<Rightarrow> json option" where
  "boot_field b k =
     (case b of
        JObj d \<Rightarrow> (case map_of d ''Boot'' of Some (JObj bd) \<Rightarrow> map_of bd k | _ \<Rightarrow> None)
      | _ \<Rightarrow> None)"

fun key_of :: "event \<Rightarrow> key option" where
  "key_of (HttpPost u b us p) =
     (if ends_with ''/Actions/VirtualMedia.InsertMedia'' u then Some KInsert
      else if ends_with ''/Actions/Manager.Reset'' u then Some KReset
      else None)"
| "key_of (HttpPatch u b us p) =
     (if boot_field b ''BootSourceOverrideEnabled'' = Some (JStr ''Once'')
         \<and> boot_field b ''BootSourceOverrideTarget'' = Some (JStr ''Cd'')
      then Some KEnable
      else if boot_field b ''BootSourceOverrideEnabled'' = Some (JStr ''Disabled'')
      then Some KDisable
      else None)"
| "key_of (Run h cmd) = (if cmd = ''rm -f /mnt/imc/acc-os.iso'' then Some KCleanup else None)"
| "key_of (Ping h) = Some KPing"
| "key_of (RunInContainer c) = Some KFlash"
| "key_of ColdBoot = Some KColdBoot"
| "key_of _ = None"

primrec keys :: "event list \<Rightarrow> key list" where
  "keys [] = []"
| "keys (e # es) = (case key_of e of None \<Rightarrow> keys es | Some k \<Rightarrow> k # keys es)"

text \<open>The events that a computation adds to the trace.\<close>

definition events_of :: "'a io \<Rightarrow> world \<Rightarrow> event list" where
  "events_of m w = drop (length (trace w)) (trace (snd (m w)))"

text \<open>
  \<open>behaves m V Ok Fail\<close>: a run of \<open>m\<close> only adds events; when it returns, its value
  satisfies \<open>V\<close> and the keys of the added events are one of \<open>Ok\<close>; when it raises, they
  are one of \<open>Fail\<close>.
\<close>

definition behaves :: "'a io \<Rightarrow> ('a \<Rightarrow> bool) \<Rightarrow> key list list \<Rightarrow> key list list \<Rightarrow> bool" where
  "behaves m V Ok Fail =
     (\<forall>w. \<exists>evs. trace (snd (m w)) = trace w @ evs
           \<and> (case fst (m w) of
                Inr x \<Rightarrow> V x \<and> keys evs \<in> set Ok
              | Inl e \<Rightarrow> keys evs \<in> set Fail))"

definition cat :: "key list list \<Rightarrow> key list list \<Rightarrow> key list list" where
  "cat A B = concat (map (\<lambda>a. map (\<lambda>b. a @ b) B) A)"

definition quiet :: "'a io \<Rightarrow> bool" where
  "quiet m = behaves m (\<lambda>_. True) [[]] [[]]"

text \<open>The override PATCHes, and the deletions and insertions, among the keys of some events.\<close>

definition overrides :: "event list \<Rightarrow> key list" where
  "overrides evs = filter (\<lambda>k. k = KEnable \<or> k = KDisable) (keys evs)"

definition inserts :: "event list \<Rightarrow> key list" where
  "inserts evs = filter (\<lambda>k. k = KCleanup \<or> k = KInsert) (keys evs)"



text \<open>The three calls of \<^verbatim>\<open>IPUBMC.version\<close>.\<close>

definition probe_get :: "IPUBMC \<Rightarrow> string \<Rightarrow> event" where
  "probe_get self u =
     HttpGet (''https://'' @ u @ '':8443/redfish/v1/Systems/1'') (bmc_user self) (bmc_password self)"


definition console_login :: "IPUBMC \<Rightarrow> event" where
  "console_login self = SshConnect (bmc_url self) ''root'' []"


text \<open>
  The GET of the virtual media resource, and what \<^verbatim>\<open>_virtual_media_is_inserted\<close> makes of
  its answer: the media is reported inserted under the name \<open>filename\<close>.
\<close>

definition media_get :: "IPUBMC \<Rightarrow> event" where
  "media_get self =
     HttpGet (redfish_url self ''Systems/1/VirtualMedia/1'') (bmc_user self) (bmc_password self)"

fun reports_inserted :: "string \<Rightarrow> http_result \<Rightarrow> bool" where
  "reports_inserted filename (RequestFailed e) = False"
| "reports_inserted filename (Responded r) =
     (\<not> (400 \<le> status_code r \<and> status_code r < 600)
      \<and> (case body r of
            NotJson \<Rightarrow> False
          | Json d \<Rightarrow> map_of d ''Inserted'' = Some (JBool True)
                      \<and> map_of d ''ImageName'' = Some (JStr filename)))"

text \<open>
  One unanswered poll of the liveness loop (a ping, then 20 seconds of sleep), the
  events of \<open>k\<close> such polls, the events of one escalation, the number of polls that use
  up a countdown, and the console reboots among some events.
\<close>

definition poll :: "env \<Rightarrow> string \<Rightarrow> world \<Rightarrow> world" where
  "poll E acc w = snd (sleep E 20 (snd (ping E acc w)))"

definition rounds :: "string \<Rightarrow> nat \<Rightarrow> event list" where
  "rounds acc k = concat (replicate k [Ping acc, Sleep 20])"

definition escalation :: "BmcConfig \<Rightarrow> event list" where
  "escalation b = [SshConnect (url b) (user b) (password b), Run (url b) ''reboot'']"

definition escalate :: "env \<Rightarrow> BmcConfig \<Rightarrow> world \<Rightarrow> world" where
  "escalate E b w =
     emit E (Run (url b) ''reboot'') (emit E (SshConnect (url b) (user b) (password b)) w)"

definition polls_of :: "int \<Rightarrow> nat" where
  "polls_of t = nat ((max t 1 + 19) div 20)"

fun is_reboot :: "event \<Rightarrow> bool" where
  "is_reboot (Run h cmd) = (cmd = ''reboot'')"
| "is_reboot _ = False"

definition console_reboots :: "event list \<Rightarrow> nat" where
  "console_reboots evs = length (filter is_reboot evs)"

text \<open>The result of a run that may not come back, and the reboots of its trace.\<close>

definition outcome :: "((exc + unit) \<times> world) option \<Rightarrow> (exc + unit) option" where
  "outcome x = map_option fst x"

definition reboots_of :: "((exc + unit) \<times> world) option \<Rightarrow> nat option" where
  "reboots_of x = map_option (\<lambda>p. console_reboots (trace (snd p))) x"

text \<open>What is left of the loop after one unanswered poll.\<close>

definition expire ::
  "env \<Rightarrow> IPUClusterNode \<Rightarrow> string \<Rightarrow> nat \<Rightarrow> world \<Rightarrow> ((exc + unit) \<times> world) option" where
  "expire E self acc failures w2 =
     (if failures + 1 = 5 then Some (Inl (ErrorAndExit TooManyFailures), w2)
      else (case reboot_imc E self w2 of
              (Inl e, w3) \<Rightarrow> Some (Inl e, w3)
            | (Inr _, w3) \<Rightarrow> acc_loop E self acc 240 (failures + 1) w3))"

text \<open>
  The \<^verbatim>\<open>du\<close> call of \<^verbatim>\<open>_get_file_size\<close> on the image file, and the answers to a GET that
  \<^verbatim>\<open>_requests_get\<close> returns as JSON (any other answer ends the process).
\<close>

definition size_read :: "string \<Rightarrow> event" where
  "size_read imc = Run imc (''du -b '' @ shlex_quote iso_file)"

fun answers :: "http_result \<Rightarrow> bool" where
  "answers (RequestFailed e) = False"
| "answers (Responded r) = (\<not> (400 \<le> status_code r \<and> status_code r < 600) \<and> body r \<noteq> NotJson)"

text \<open>
  One round of the wait loop of \<^verbatim>\<open>_wait_iso_downloaded\<close> whose poll says no: the poll, the
  sleep of 10 seconds and, when the count of rounds is a multiple of 6, the progress log.
  \<open>wait_rounds\<close> is the world after \<open>k\<close> such rounds. The loop \<open>goes_on\<close> from a world
  when the poll is answered and does not report the media, the sleep ends before the
  deadline, and the progress log (if it is due) does not divide by zero.
\<close>

definition wait_round :: "env \<Rightarrow> IPUBMC \<Rightarrow> string \<Rightarrow> string \<Rightarrow> int \<Rightarrow> nat \<Rightarrow> world \<Rightarrow> world" where
  "wait_round E self filename imc expected_size loop_count w =
     snd ((if loop_count mod 6 = 0 then log_progress E imc expected_size else io_return ())
            (snd (sleep E 10 (snd (virtual_media_is_inserted E self filename w)))))"

fun wait_rounds ::
  "env \<Rightarrow> IPUBMC \<Rightarrow> string \<Rightarrow> string \<Rightarrow> int \<Rightarrow> nat \<Rightarrow> nat \<Rightarrow> world \<Rightarrow> world" where
  "wait_rounds E self filename imc expected_size loop_count 0 w = w"
| "wait_rounds E self filename imc expected_size loop_count (Suc k) w =
     wait_rounds E self filename imc expected_size (loop_count + 1) k
       (wait_round E self filename imc expected_size loop_count w)"

definition goes_on ::
  "env \<Rightarrow> IPUBMC \<Rightarrow> string \<Rightarrow> int \<Rightarrow> nat \<Rightarrow> nat \<Rightarrow> world \<Rightarrow> bool" where
  "goes_on E self filename expected_size wait_until loop_count w =
     (answers (http E (trace w) (media_get self))
      \<and> \<not> reports_inserted filename (http E (trace w) (media_get self))
      \<and> now (snd (sleep E 10 (emit E (media_get self) w))) < wait_until
      \<and> (loop_count mod 6 = 0 \<longrightarrow> expected_size \<noteq> 0))"

text \<open>
  The calls of the skip test of \<^verbatim>\<open>boot_iso_with_redfish\<close> and of the deletion of the stale
  image, and what the code makes of their answers: whether the marker file has the URL
  (\<^verbatim>\<open>matching_url\<close>), the size that \<^verbatim>\<open>_get_file_size\<close> reads from the output of \<^verbatim>\<open>du\<close>,
  and the size that \<^verbatim>\<open>url_get_size\<close> reads from the answer to the HEAD request.
\<close>

definition marker_read :: "string \<Rightarrow> event" where
  "marker_read imc = ReadFile imc imc_url_path"

definition stale_rm :: "string \<Rightarrow> event" where
  "stale_rm imc = Run imc ''rm -f /mnt/imc/acc-os.iso''"

fun marker_is :: "string \<Rightarrow> host_result \<Rightarrow> bool" where
  "marker_is iso_path HostRaised = False"
| "marker_is iso_path (HostDone rc contents err) = (contents = iso_path)"

fun size_on_console :: "host_result \<Rightarrow> int option" where
  "size_on_console HostRaised = None"
| "size_on_console (HostDone rc out err) =
     (if rc \<noteq> 0 then None
      else (case first_token out of
              None \<Rightarrow> None
            | Some t \<Rightarrow> (case py_int t of
                          None \<Rightarrow> None
                        | Some val \<Rightarrow> if val < 0 then None else Some val)))"

fun announced_size :: "http_result \<Rightarrow> int option" where
  "announced_size (RequestFailed e) = None"
| "announced_size (Responded r) =
     (case content_length r of
        None \<Rightarrow> None
      | Some header_value \<Rightarrow>
          (case py_int (py_strip header_value) of
             None \<Rightarrow> None
           | Some val \<Rightarrow> if val < 0 then None else Some val))"

text \<open>
  The first lines of \<^verbatim>\<open>boot_iso_with_redfish\<close>, up to the console session that the skip
  test uses: they give the expected size and that session.
\<close>

definition boot_prologue :: "env \<Rightarrow> IPUBMC \<Rightarrow> string \<Rightarrow> (int \<times> string) io" where
  "boot_prologue E self iso_path =
     io_bind (url_get_size E iso_path) (\<lambda>size_opt.
     case size_opt of
       None \<Rightarrow> io_raise (RuntimeError (FailedToDetermineFileSize iso_path))
     | Some expected_size \<Rightarrow>
         io_bind (extract_server E iso_path) (\<lambda>server.
         io_seq (prepare_imc E self server)
        (io_seq (restart_redfish E self)
        (io_bind (create_imc_rsh E self) (\<lambda>imc.
         io_return (expected_size, imc))))))"

text \<open>
  What the skip test finds when it starts on the history \<open>tr\<close>: the marker has the URL
  and the \<^verbatim>\<open>du\<close> asked after it gives the expected size. \<open>after_test\<close> is the history
  that the test leaves: the size is only asked when the marker has the URL.
\<close>

definition skip_test :: "env \<Rightarrow> string \<Rightarrow> string \<Rightarrow> int \<Rightarrow> event list \<Rightarrow> bool" where
  "skip_test E imc iso_path expected_size tr =
     (marker_is iso_path (host E tr (marker_read imc))
      \<and> size_on_console (host E (tr @ [marker_read imc]) (size_read imc)) = Some expected_size)"

definition after_test :: "env \<Rightarrow> string \<Rightarrow> string \<Rightarrow> event list \<Rightarrow> event list" where
  "after_test E imc iso_path tr =
     tr @ [marker_read imc]
        @ (if marker_is iso_path (host E tr (marker_read imc)) then [size_read imc] else [])"

text \<open>
  An environment is reliable when no call on a host ever raises. \<open>lapses E\<close> are the
  keys of a keyless step that stops on a host failure: none when \<open>E\<close> is reliable.
\<close>

definition reliable :: "env \<Rightarrow> bool" where
  "reliable E = (\<forall>tr ev. host E tr ev \<noteq> HostRaised)"

definition lapses :: "env \<Rightarrow> key list list" where
  "lapses E = (if reliable E then [] else [[]])"

definition calm :: "env \<Rightarrow> 'a io \<Rightarrow> bool" where
  "calm E m = behaves m (\<lambda>_. True) [[]] (lapses E)"

definition sure :: "'a io \<Rightarrow> bool" where
  "sure m = behaves m (\<lambda>_. True) [[]] []"

lemma keys_append: "keys (xs @ ys) = keys xs @ keys ys"
  by (induction xs) (auto split: option.split)

lemma in_cat: "a \<in> set A \<Longrightarrow> b \<in> set B \<Longrightarrow> a @ b \<in> set (cat A B)"
  by (auto simp: cat_def)

lemma behavesI:
  assumes "\<And>w. \<exists>evs. trace (snd (m w)) = trace w @ evs
           \<and> (case fst (m w) of Inr x \<Rightarrow> V x \<and> keys evs \<in> set Ok | Inl e \<Rightarrow> keys evs \<in> set Fail)"
  shows "behaves m V Ok Fail"
  using assms by (simp add: behaves_def)

lemma behavesD:
  assumes "behaves m V Ok Fail" and "m w = (r, w')"
  shows "\<exists>evs. trace w' = trace w @ evs
           \<and> (\<forall>x. r = Inr x \<longrightarrow> V x \<and> keys evs \<in> set Ok)
           \<and> (\<forall>e. r = Inl e \<longrightarrow> keys evs \<in> set Fail)"
proof -
  from assms(1) obtain evs where e: "trace (snd (m w)) = trace w @ evs"
    and c: "(case fst (m w) of Inr x \<Rightarrow> V x \<and> keys evs \<in> set Ok | Inl e \<Rightarrow> keys evs \<in> set Fail)"
    unfolding behaves_def by blast
  show ?thesis using e c assms(2) by (intro exI [of _ evs]) auto
qed

lemma behaves_return: "V x \<Longrightarrow> [] \<in> set Ok \<Longrightarrow> behaves (io_return x) V Ok Fail"
  by (simp add: behaves_def io_return_def)

lemma behaves_raise: "[] \<in> set Fail \<Longrightarrow> behaves (io_raise e) V Ok Fail"
  by (simp add: behaves_def io_raise_def)

lemma behaves_bind:
  assumes m: "behaves m V1 Ok1 Fail1"
    and f: "\<And>x. V1 x \<Longrightarrow> behaves (f x) V2 Ok2 Fail2"
  shows "behaves (io_bind m f) V2 (cat Ok1 Ok2) (Fail1 @ cat Ok1 Fail2)"
proof (rule behavesI)
  fix w
  obtain r w1 where mw: "m w = (r, w1)" by (cases "m w")
  from behavesD [OF m mw] obtain evs1 where t1: "trace w1 = trace w @ evs1"
    and ok1: "\<And>x. r = Inr x \<Longrightarrow> V1 x \<and> keys evs1 \<in> set Ok1"
    and fl1: "\<And>e. r = Inl e \<Longrightarrow> keys evs1 \<in> set Fail1"
    by blast
  show "\<exists>evs. trace (snd (io_bind m f w)) = trace w @ evs
           \<and> (case fst (io_bind m f w) of
                Inr x \<Rightarrow> V2 x \<and> keys evs \<in> set (cat Ok1 Ok2)
              | Inl e \<Rightarrow> keys evs \<in> set (Fail1 @ cat Ok1 Fail2))"
  proof (cases r)
    case (Inl e)
    then show ?thesis using mw t1 fl1 by (auto simp: io_bind_def)
  next
    case (Inr x)
    obtain r2 w2 where fw: "f x w1 = (r2, w2)" by (cases "f x w1")
    have "behaves (f x) V2 Ok2 Fail2" using f ok1 Inr by blast
    from behavesD [OF this fw] obtain evs2 where t2: "trace w2 = trace w1 @ evs2"
      and ok2: "\<And>y. r2 = Inr y \<Longrightarrow> V2 y \<and> keys evs2 \<in> set Ok2"
      and fl2: "\<And>e. r2 = Inl e \<Longrightarrow> keys evs2 \<in> set Fail2"
      by blast
    have k1: "keys evs1 \<in> set Ok1" using ok1 Inr by blast
    have b: "io_bind m f w = (r2, w2)" using mw Inr fw by (simp add: io_bind_def)
    have t: "trace w2 = trace w @ (evs1 @ evs2)" using t1 t2 by simp
    show ?thesis
    proof (cases r2)
      case (Inl e)
      have "keys (evs1 @ evs2) \<in> set (cat Ok1 Fail2)"
        using k1 fl2 [OF Inl] by (simp add: keys_append in_cat)
      then show ?thesis using b t Inl by (intro exI [of _ "evs1 @ evs2"]) simp
    next
      case (Inr y)
      have "keys (evs1 @ evs2) \<in> set (cat Ok1 Ok2)"
        using k1 ok2 [OF Inr] by (simp add: keys_append in_cat)
      then show ?thesis using b t Inr ok2 [OF Inr] by (intro exI [of _ "evs1 @ evs2"]) simp
    qed
  qed
qed

lemma behaves_weaken:
  assumes "behaves m V Ok Fail"
    and "\<And>x. V x \<Longrightarrow> V' x" and "set Ok \<subseteq> set Ok'" and "set Fail \<subseteq> set Fail'"
  shows "behaves m V' Ok' Fail'"
proof (rule behavesI)
  fix w
  obtain r w1 where mw: "m w = (r, w1)" by (cases "m w")
  from behavesD [OF assms(1) mw] obtain evs where t1: "trace w1 = trace w @ evs"
    and ok1: "\<And>x. r = Inr x \<Longrightarrow> V x \<and> keys evs \<in> set Ok"
    and fl1: "\<And>e. r = Inl e \<Longrightarrow> keys evs \<in> set Fail"
    by blast
  show "\<exists>evs. trace (snd (m w)) = trace w @ evs
           \<and> (case fst (m w) of Inr x \<Rightarrow> V' x \<and> keys evs \<in> set Ok'
               | Inl e \<Rightarrow> keys evs \<in> set Fail')"
    using mw t1 ok1 fl1 assms(2-4) by (cases r) auto
qed

lemma behaves_seq:
  "behaves m V1 Ok1 Fail1 \<Longrightarrow> behaves k V2 Ok2 Fail2
   \<Longrightarrow> behaves (io_seq m k) V2 (cat Ok1 Ok2) (Fail1 @ cat Ok1 Fail2)"
  unfolding io_seq_def by (rule behaves_bind)

lemma behaves_catch:
  assumes m: "behaves m V Ok1 Fail1"
    and h: "\<And>e. behaves (h e) V Ok2 Fail2"
  shows "behaves (io_catch m h) V (Ok1 @ cat Fail1 Ok2) (cat Fail1 Fail2)"
proof (rule behavesI)
  fix w
  obtain r w1 where mw: "m w = (r, w1)" by (cases "m w")
  from behavesD [OF m mw] obtain evs1 where t1: "trace w1 = trace w @ evs1"
    and ok1: "\<And>x. r = Inr x \<Longrightarrow> V x \<and> keys evs1 \<in> set Ok1"
    and fl1: "\<And>e. r = Inl e \<Longrightarrow> keys evs1 \<in> set Fail1"
    by blast
  show "\<exists>evs. trace (snd (io_catch m h w)) = trace w @ evs
           \<and> (case fst (io_catch m h w) of
                Inr x \<Rightarrow> V x \<and> keys evs \<in> set (Ok1 @ cat Fail1 Ok2)
              | Inl e \<Rightarrow> keys evs \<in> set (cat Fail1 Fail2))"
  proof (cases r)
    case (Inr x)
    then show ?thesis using mw t1 ok1 by (auto simp: io_catch_def)
  next
    case (Inl e)
    obtain r2 w2 where hw: "h e w1 = (r2, w2)" by (cases "h e w1")
    from behavesD [OF h hw] obtain evs2 where t2: "trace w2 = trace w1 @ evs2"
      and ok2: "\<And>y. r2 = Inr y \<Longrightarrow> V y \<and> keys evs2 \<in> set Ok2"
      and fl2: "\<And>e. r2 = Inl e \<Longrightarrow> keys evs2 \<in> set Fail2"
      by blast
    have k1: "keys evs1 \<in> set Fail1" using fl1 Inl by blast
    have b: "io_catch m h w = (r2, w2)" using mw Inl hw by (simp add: io_catch_def)
    have t: "trace w2 = trace w @ (evs1 @ evs2)" using t1 t2 by simp
    show ?thesis
    proof (cases r2)
      case (Inl e')
      have "keys (evs1 @ evs2) \<in> set (cat Fail1 Fail2)"
        using k1 fl2 [OF Inl] by (simp add: keys_append in_cat)
      then show ?thesis using b t Inl by (intro exI [of _ "evs1 @ evs2"]) simp
    next
      case (Inr y)
      have "keys (evs1 @ evs2) \<in> set (cat Fail1 Ok2)"
        using k1 ok2 [OF Inr] by (simp add: keys_append in_cat)
      then show ?thesis using b t Inr ok2 [OF Inr] by (intro exI [of _ "evs1 @ evs2"]) simp
    qed
  qed
qed

lemma quiet_return: "quiet (io_return x)"
  by (simp add: quiet_def behaves_return)

lemma quiet_raise: "quiet (io_raise e)"
  by (simp add: quiet_def behaves_raise)

lemma quiet_bind:
  assumes "quiet m" and "\<And>x. quiet (f x)"
  shows "quiet (io_bind m f)"
proof -
  have "behaves (io_bind m f) (\<lambda>_. True) (cat [[]] [[]]) ([[]] @ cat [[]] [[]])"
    using assms unfolding quiet_def by (intro behaves_bind)
  then show ?thesis unfolding quiet_def by (rule behaves_weaken) (simp_all add: cat_def)
qed

lemma quiet_seq: "quiet m \<Longrightarrow> quiet k \<Longrightarrow> quiet (io_seq m k)"
  by (simp add: io_seq_def quiet_bind)

lemma quiet_catch:
  assumes "quiet m" and "\<And>e. quiet (h e)"
  shows "quiet (io_catch m h)"
proof -
  have "behaves (io_catch m h) (\<lambda>_. True) ([[]] @ cat [[]] [[]]) (cat [[]] [[]])"
    using assms unfolding quiet_def by (intro behaves_catch)
  then show ?thesis unfolding quiet_def by (rule behaves_weaken) (simp_all add: cat_def)
qed

lemma quiet_behaves: "quiet m \<Longrightarrow> behaves m (\<lambda>_. True) [[]] [[]]"
  by (simp add: quiet_def)

text \<open>After a quiet step the keys are those of what follows.\<close>

lemma quiet_then:
  assumes "quiet m" and "\<And>x. behaves (f x) V Ok Fail"
  shows "behaves (io_bind m f) V Ok ([] # Fail)"
proof -
  have "behaves (io_bind m f) V (cat [[]] Ok) ([[]] @ cat [[]] Fail)"
    using assms unfolding quiet_def by (intro behaves_bind)
  then show ?thesis by (rule behaves_weaken) (auto simp: cat_def)
qed

lemma quiet_then_seq:
  "quiet m \<Longrightarrow> behaves k V Ok Fail \<Longrightarrow> behaves (io_seq m k) V Ok ([] # Fail)"
  unfolding io_seq_def by (rule quiet_then)

subsection \<open>The single calls\<close>

lemma emit_trace: "trace (emit E ev w) = trace w @ [ev]"
  by (simp add: emit_def)

lemma host_call_behaves:
  "behaves (host_call E ev) (\<lambda>_. True) [keys [ev]] [keys [ev]]"
  by (rule behavesI) (auto simp: host_call_def emit_trace split: host_result.split)

lemma http_call_behaves:
  "behaves (http_call E ev) (\<lambda>_. True) [keys [ev]] [keys [ev]]"
  by (rule behavesI) (auto simp: http_call_def emit_trace split: http_result.split)

lemma quiet_host_call: "key_of ev = None \<Longrightarrow> quiet (host_call E ev)"
  using host_call_behaves [of E ev] by (simp add: quiet_def)

lemma quiet_http_call: "key_of ev = None \<Longrightarrow> quiet (http_call E ev)"
  using http_call_behaves [of E ev] by (simp add: quiet_def)

lemma quiet_sleep: "quiet (sleep E n)"
  unfolding quiet_def by (rule behavesI) (simp add: sleep_def emit_trace)

lemma quiet_monotonic: "quiet monotonic"
  unfolding quiet_def by (rule behavesI) (simp add: monotonic_def)

lemma quiet_raise_for_status: "quiet (raise_for_status r)"
  by (simp add: raise_for_status_def quiet_return quiet_raise)

lemma quiet_response_json: "quiet (response_json r)"
  by (simp add: response_json_def quiet_return quiet_raise split: body.split)

lemma quiet_ssh_connect: "quiet (ssh_connect E h u p)"
  unfolding ssh_connect_def by (intro quiet_bind quiet_host_call quiet_return) simp

lemma quiet_read_file: "quiet (read_file E h p)"
  unfolding read_file_def
  by (intro quiet_bind quiet_host_call) (simp_all add: quiet_return split: prod.split)

lemma quiet_write_file: "quiet (write_file E h p c)"
  unfolding write_file_def by (intro quiet_bind quiet_host_call quiet_return) simp

lemma quiet_wait_ping: "quiet (wait_ping E h)"
  unfolding wait_ping_def by (intro quiet_bind quiet_host_call quiet_return) simp

lemma quiet_run: "cmd \<noteq> ''rm -f /mnt/imc/acc-os.iso'' \<Longrightarrow> quiet (run E h cmd)"
  unfolding run_def by (rule quiet_host_call) simp

lemma quiet_requests_get: "quiet (requests_get E self u)"
  unfolding requests_get_def
  by (intro quiet_catch quiet_bind quiet_seq quiet_http_call quiet_raise_for_status
        quiet_response_json)
     (simp_all add: quiet_return quiet_raise split: exc.split)

lemma quiet_redfish_available: "quiet (redfish_available E self u)"
  unfolding redfish_available_def
  by (intro quiet_catch quiet_bind quiet_seq quiet_http_call quiet_raise_for_status quiet_return)
     (simp_all add: quiet_return quiet_raise split: exc.split)

lemma quiet_create_imc_rsh: "quiet (create_imc_rsh E self)"
  unfolding create_imc_rsh_def by (intro quiet_seq quiet_ssh_connect quiet_return)

lemma quiet_restart_redfish: "quiet (restart_redfish E self)"
  unfolding restart_redfish_def
  by (intro quiet_seq quiet_bind quiet_ssh_connect quiet_run quiet_sleep) simp

lemma quiet_get_file_size: "quiet (get_file_size E rsh f)"
  unfolding get_file_size_def
  by (intro quiet_bind quiet_catch quiet_run)
     (auto simp: quiet_return quiet_raise split: option.split)

lemma quiet_url_extract_filename: "quiet (url_extract_filename E u)"
  by (simp add: url_extract_filename_def quiet_return quiet_raise split: option.split)

lemma quiet_extract_server: "quiet (extract_server E u)"
  by (simp add: extract_server_def quiet_return quiet_raise split: option.split)

lemma quiet_virtual_media_is_inserted: "quiet (virtual_media_is_inserted E self f)"
  unfolding virtual_media_is_inserted_def
  by (intro quiet_bind quiet_requests_get)
     (simp add: quiet_return split: option.split json.split bool.split)

lemma quiet_log_progress: "quiet (log_progress E imc n)"
  unfolding log_progress_def
  by (intro quiet_bind quiet_get_file_size) (simp add: quiet_return quiet_raise)

lemma quiet_matching_url: "quiet (matching_url E imc u)"
  unfolding matching_url_def
  by (intro quiet_catch quiet_bind quiet_read_file) (simp_all add: quiet_return quiet_raise)

lemma quiet_same_size: "quiet (same_size E imc n)"
  unfolding same_size_def by (intro quiet_bind quiet_get_file_size quiet_return)

lemma quiet_prepare_imc: "quiet (prepare_imc E self s)"
  unfolding prepare_imc_def
  by (intro quiet_seq quiet_bind quiet_ssh_connect quiet_create_imc_rsh quiet_run
        quiet_read_file quiet_write_file quiet_sleep quiet_wait_ping)
     simp_all

subsection \<open>Steps that only a host failure can stop\<close>

lemma lapses_subset: "set (lapses E) \<subseteq> {[]}"
  by (simp add: lapses_def)

lemma cat_lapses [simp]: "cat [[]] (lapses E) = lapses E" "cat (lapses E) [[]] = lapses E"
  by (simp_all add: cat_def lapses_def)

lemma calm_quiet: "calm E m \<Longrightarrow> quiet m"
  unfolding calm_def quiet_def by (erule behaves_weaken) (simp_all add: lapses_def)

lemma sure_calm: "sure m \<Longrightarrow> calm E m"
  unfolding calm_def sure_def by (erule behaves_weaken) simp_all

lemma sure_return: "sure (io_return x)"
  by (simp add: sure_def behaves_return)

lemma calm_return: "calm E (io_return x)"
  by (simp add: calm_def behaves_return)

lemma calm_bind:
  assumes "calm E m" and "\<And>x. calm E (f x)"
  shows "calm E (io_bind m f)"
proof -
  have "behaves (io_bind m f) (\<lambda>_. True) (cat [[]] [[]]) (lapses E @ cat [[]] (lapses E))"
    using assms unfolding calm_def by (rule behaves_bind)
  then show ?thesis unfolding calm_def by (rule behaves_weaken) (simp_all add: cat_def)
qed

lemma calm_seq: "calm E m \<Longrightarrow> calm E k \<Longrightarrow> calm E (io_seq m k)"
  by (simp add: io_seq_def calm_bind)

lemma sure_bind:
  assumes "sure m" and "\<And>x. sure (f x)"
  shows "sure (io_bind m f)"
proof -
  have "behaves (io_bind m f) (\<lambda>_. True) (cat [[]] [[]]) ([] @ cat [[]] [])"
    using assms unfolding sure_def by (rule behaves_bind)
  then show ?thesis unfolding sure_def by (rule behaves_weaken) (simp_all add: cat_def)
qed

lemma calm_then:
  assumes "calm E m" and "\<And>x. behaves (f x) V Ok Fail"
  shows "behaves (io_bind m f) V Ok (lapses E @ Fail)"
proof -
  have "behaves (io_bind m f) V (cat [[]] Ok) (lapses E @ cat [[]] Fail)"
    using assms unfolding calm_def by (rule behaves_bind)
  then show ?thesis by (rule behaves_weaken) (auto simp: cat_def)
qed

lemma calm_then_seq:
  "calm E m \<Longrightarrow> behaves k V Ok Fail \<Longrightarrow> behaves (io_seq m k) V Ok (lapses E @ Fail)"
  unfolding io_seq_def by (rule calm_then)

text \<open>After a step that never raises, with what is known of its value.\<close>

lemma sure_then:
  assumes "behaves m V1 [[]] []" and "\<And>x. V1 x \<Longrightarrow> behaves (f x) V Ok Fail"
  shows "behaves (io_bind m f) V Ok Fail"
proof -
  have "behaves (io_bind m f) V (cat [[]] Ok) ([] @ cat [[]] Fail)"
    using assms by (rule behaves_bind)
  then show ?thesis by (rule behaves_weaken) (auto simp: cat_def)
qed

lemma host_call_lapses:
  "behaves (host_call E ev) (\<lambda>_. True) [keys [ev]] (cat (lapses E) [keys [ev]])"
proof (cases "reliable E")
  case True
  then have "host E (trace w) ev \<noteq> HostRaised" for w by (simp add: reliable_def)
  then show ?thesis
    by (intro behavesI) (auto simp: host_call_def emit_trace split: host_result.split)
next
  case False
  then have "cat (lapses E) [keys [ev]] = [keys [ev]]" by (simp add: lapses_def cat_def)
  then show ?thesis using host_call_behaves [of E ev] by simp
qed

lemma calm_host_call: "key_of ev = None \<Longrightarrow> calm E (host_call E ev)"
  using host_call_lapses [of E ev] by (simp add: calm_def cat_def lapses_def)

lemma sure_sleep: "sure (sleep E n)"
  unfolding sure_def by (rule behavesI) (simp add: sleep_def emit_trace)

lemma calm_ssh_connect: "calm E (ssh_connect E h u p)"
  unfolding ssh_connect_def by (intro calm_bind calm_host_call calm_return) simp

lemma calm_read_file: "calm E (read_file E h p)"
  unfolding read_file_def
  by (intro calm_bind calm_host_call) (simp_all add: calm_return split: prod.split)

lemma calm_write_file: "calm E (write_file E h p c)"
  unfolding write_file_def by (intro calm_bind calm_host_call calm_return) simp

lemma calm_wait_ping: "calm E (wait_ping E h)"
  unfolding wait_ping_def by (intro calm_bind calm_host_call calm_return) simp

lemma calm_run: "cmd \<noteq> ''rm -f /mnt/imc/acc-os.iso'' \<Longrightarrow> calm E (run E h cmd)"
  unfolding run_def by (rule calm_host_call) simp

lemma calm_create_imc_rsh: "calm E (create_imc_rsh E self)"
  unfolding create_imc_rsh_def by (intro calm_seq calm_ssh_connect calm_return)

lemma calm_restart_redfish: "calm E (restart_redfish E self)"
  unfolding restart_redfish_def
  by (intro calm_seq calm_bind calm_ssh_connect calm_run sure_calm [OF sure_sleep]) simp

lemma calm_prepare_imc: "calm E (prepare_imc E self s)"
  unfolding prepare_imc_def
  by (intro calm_seq calm_bind calm_ssh_connect calm_create_imc_rsh calm_run
        calm_read_file calm_write_file sure_calm [OF sure_sleep] calm_wait_ping)
     simp_all

text \<open>The reads that catch every exception never raise.\<close>

lemma sure_get_file_size: "sure (get_file_size E rsh f)"
  unfolding sure_def
  by (rule behavesI)
     (auto simp: get_file_size_def run_def host_call_def io_bind_def io_catch_def io_return_def
        io_raise_def emit_trace split: host_result.split option.split)

lemma sure_same_size: "sure (same_size E imc n)"
  unfolding same_size_def by (intro sure_bind sure_get_file_size sure_return)

lemma sure_matching_url: "sure (matching_url E imc u)"
  unfolding sure_def
  by (rule behavesI)
     (auto simp: matching_url_def read_file_def host_call_def io_bind_def io_catch_def
        io_return_def io_raise_def emit_trace split: host_result.split)

lemma sure_url_get_size: "sure (url_get_size E u)"
  unfolding sure_def
  by (rule behavesI)
     (auto simp: url_get_size_def http_call_def io_bind_def io_catch_def io_return_def
        io_raise_def emit_trace split: http_result.split option.split)

text \<open>What is known of every value of a computation is known of its runs.\<close>

lemma behaves_value:
  assumes "behaves m (\<lambda>_. True) Ok Fail" and "\<And>w x. fst (m w) = Inr x \<Longrightarrow> V x"
  shows "behaves m V Ok Fail"
proof (rule behavesI)
  fix w
  obtain r w1 where mw: "m w = (r, w1)" by (cases "m w")
  from behavesD [OF assms(1) mw] obtain evs where t1: "trace w1 = trace w @ evs"
    and ok1: "\<forall>x. r = Inr x \<longrightarrow> True \<and> keys evs \<in> set Ok"
    and fl1: "\<forall>e. r = Inl e \<longrightarrow> keys evs \<in> set Fail"
    by blast
  have v: "V x" if "r = Inr x" for x using assms(2) [of w x] mw that by simp
  show "\<exists>evs. trace (snd (m w)) = trace w @ evs
           \<and> (case fst (m w) of Inr x \<Rightarrow> V x \<and> keys evs \<in> set Ok | Inl e \<Rightarrow> keys evs \<in> set Fail)"
    using mw t1 ok1 fl1 v by (cases r) auto
qed

subsection \<open>The calls of the boot operation\<close>

lemma requests_post_behaves:
  "behaves (requests_post E self u d) (\<lambda>_. True)
     [keys [HttpPost u d (bmc_user self) (bmc_password self)]] []"
  by (rule behavesI)
     (auto simp: requests_post_def io_catch_def io_bind_def http_call_def raise_for_status_def
        io_return_def io_raise_def emit_trace split: http_result.split)

lemma requests_patch_behaves:
  "behaves (requests_patch E self u d) (\<lambda>_. True)
     [keys [HttpPatch u d (bmc_user self) (bmc_password self)]] []"
  by (rule behavesI)
     (auto simp: requests_patch_def io_catch_def io_bind_def http_call_def raise_for_status_def
        io_return_def io_raise_def emit_trace split: http_result.split)

lemma ends_with_append: "ends_with suf (xs @ suf)"
  by (simp add: ends_with_def starts_with_def)

lemma key_of_insert_media [simp]:
  "key_of (HttpPost (insert_media_url self) d us p) = Some KInsert"
proof -
  have "insert_media_url self
          = (''https://'' @ bmc_url self @ '':8443/redfish/v1/Systems/1/VirtualMedia/1'')
            @ ''/Actions/VirtualMedia.InsertMedia''"
    by (simp add: insert_media_url_def redfish_url_def)
  then have "ends_with ''/Actions/VirtualMedia.InsertMedia'' (insert_media_url self)"
    using ends_with_append by metis
  then show ?thesis by simp
qed

lemma key_of_reset [simp]:
  "key_of (HttpPost (redfish_url self ''Managers/1/Actions/Manager.Reset'') d us p) = Some KReset"
proof -
  have e: "redfish_url self ''Managers/1/Actions/Manager.Reset''
          = (''https://'' @ bmc_url self @ '':8443/redfish/v1/Managers/1'')
            @ ''/Actions/Manager.Reset''"
    by (simp add: redfish_url_def)
  have a: "ends_with ''/Actions/Manager.Reset'' (redfish_url self ''Managers/1/Actions/Manager.Reset'')"
    unfolding e by (rule ends_with_append)
  have b: "\<not> ends_with ''/Actions/VirtualMedia.InsertMedia''
             (redfish_url self ''Managers/1/Actions/Manager.Reset'')"
    by (simp add: redfish_url_def ends_with_def starts_with_def)
  show ?thesis using a b by simp
qed

lemma key_of_enable [simp]: "key_of (HttpPatch u override_cd_body us p) = Some KEnable"
  by (simp add: override_cd_body_def boot_field_def)

lemma key_of_disable [simp]: "key_of (HttpPatch u override_disabled_body us p) = Some KDisable"
  by (simp add: override_disabled_body_def boot_field_def)

lemma bootsource_override_cd_behaves:
  "behaves (bootsource_override_cd E self) (\<lambda>_. True) [[KEnable]] []"
  using requests_patch_behaves [of E self "redfish_url self ''Systems/1''" override_cd_body]
  by (simp add: bootsource_override_cd_def del: key_of.simps)

lemma unset_bootsource_override_behaves:
  "behaves (unset_bootsource_override E self) (\<lambda>_. True) [[KDisable]] []"
  using requests_patch_behaves [of E self "redfish_url self ''Systems/1''" override_disabled_body]
  by (simp add: unset_bootsource_override_def del: key_of.simps)

lemma reboot_behaves: "behaves (reboot E self) (\<lambda>_. True) [[KReset]] []"
  using requests_post_behaves [of E self "redfish_url self ''Managers/1/Actions/Manager.Reset''"]
  by (simp add: reboot_def del: key_of.simps)

lemma quietI:
  assumes "\<And>w. \<exists>evs. trace (snd (m w)) = trace w @ evs \<and> keys evs = []"
  shows "quiet m"
  unfolding quiet_def
proof (rule behavesI)
  fix w
  from assms obtain evs where "trace (snd (m w)) = trace w @ evs" and "keys evs = []" by blast
  then show "\<exists>evs. trace (snd (m w)) = trace w @ evs
          \<and> (case fst (m w) of Inr x \<Rightarrow> True \<and> keys evs \<in> set [[]] | Inl e \<Rightarrow> keys evs \<in> set [[]])"
    by (intro exI [of _ evs]) (simp split: sum.split)
qed

lemma quietD:
  assumes "quiet m"
  shows "\<exists>evs. trace (snd (m w)) = trace w @ evs \<and> keys evs = []"
proof -
  obtain r w1 where mw: "m w = (r, w1)" by (cases "m w")
  from behavesD [OF assms [unfolded quiet_def] mw] obtain evs
    where "trace w1 = trace w @ evs"
      and "\<forall>x. r = Inr x \<longrightarrow> True \<and> keys evs \<in> set [[]]"
      and "\<forall>e. r = Inl e \<longrightarrow> keys evs \<in> set [[]]"
    by blast
  then show ?thesis using mw by (cases r) auto
qed

lemma wait_loop_keys:
  "\<exists>evs. trace (snd (wait_loop E self iso_path n f imc wu lc w)) = trace w @ evs \<and> keys evs = []"
proof (induction E self iso_path n f imc wu lc w rule: wait_loop.induct)
  case (1 E self iso_path n f imc wu lc w)
  obtain r1 w1 where v: "virtual_media_is_inserted E self f w = (r1, w1)"
    by (cases "virtual_media_is_inserted E self f w")
  from quietD [OF quiet_virtual_media_is_inserted, of E self f w] v
  obtain e1 where t1: "trace w1 = trace w @ e1" and k1: "keys e1 = []" by auto
  show ?case
  proof (cases r1)
    case (Inl e)
    then show ?thesis using v t1 k1 by (subst wait_loop.simps) simp
  next
    case (Inr b)
    show ?thesis
    proof (cases b)
      case True
      then show ?thesis using v Inr t1 k1 by (subst wait_loop.simps) simp
    next
      case False
      then have bf: "b = False" by simp
      obtain r2 w2 where s: "sleep E 10 w1 = (r2, w2)" by (cases "sleep E 10 w1")
      have r2: "r2 = Inr ()" using s by (auto simp: sleep_def)
      from quietD [OF quiet_sleep, of E 10 w1] s
      obtain e2 where t2: "trace w2 = trace w1 @ e2" and k2: "keys e2 = []" by auto
      show ?thesis
      proof (cases "wu \<le> now w2")
        case True
        then show ?thesis using v Inr False s r2 t1 k1 t2 k2
          by (subst wait_loop.simps) (simp add: keys_append)
      next
        case late: False
        let ?lp = "if lc mod 6 = 0 then log_progress E imc n else io_return ()"
        have q: "quiet ?lp" by (simp add: quiet_log_progress quiet_return)
        obtain r3 w3 where l: "?lp w2 = (r3, w3)" by (cases "?lp w2")
        from quietD [OF q, of w2] l
        obtain e3 where t3: "trace w3 = trace w2 @ e3" and k3: "keys e3 = []" by auto
        show ?thesis
        proof (cases r3)
          case (Inl e)
          then show ?thesis using v Inr False s r2 late l t1 k1 t2 k2 t3 k3
            by (subst wait_loop.simps) (simp add: keys_append)
        next
          case inr3: (Inr u)
          have "\<exists>evs. trace (snd (wait_loop E self iso_path n f imc wu (lc + 1) w3))
                  = trace w3 @ evs \<and> keys evs = []"
            using "1.IH" [OF v [symmetric] Inr bf s [symmetric] r2 late l [symmetric] inr3] .
          then obtain e4 where
            t4: "trace (snd (wait_loop E self iso_path n f imc wu (lc + 1) w3)) = trace w3 @ e4"
            and k4: "keys e4 = []" by blast
          have "wait_loop E self iso_path n f imc wu lc w
                  = wait_loop E self iso_path n f imc wu (lc + 1) w3"
            using v Inr False s r2 late l inr3 by (subst wait_loop.simps) simp
          then show ?thesis using t1 t2 t3 t4 k1 k2 k3 k4
            by (intro exI [of _ "e1 @ e2 @ e3 @ e4"]) (simp add: keys_append)
        qed
      qed
    qed
  qed
qed

lemma quiet_wait_loop: "quiet (wait_loop E self iso_path n f imc wu lc)"
  by (rule quietI) (rule wait_loop_keys)

lemma quiet_wait_iso_downloaded: "quiet (wait_iso_downloaded E self iso_path n)"
  unfolding wait_iso_downloaded_def Let_def
  by (intro quiet_bind quiet_monotonic quiet_url_extract_filename quiet_create_imc_rsh
        quiet_wait_loop)

lemma insert_media_behaves:
  "behaves (insert_media E self iso_path n) (\<lambda>_. True) [[KInsert]] [[KInsert]]"
proof -
  have "behaves (insert_media E self iso_path n) (\<lambda>_. True)
          (cat [[KInsert]] [[]]) ([] @ cat [[KInsert]] [[]])"
    unfolding insert_media_def
    using behaves_seq [OF
        requests_post_behaves [of E self "insert_media_url self" "insert_media_body iso_path"]
        quiet_behaves [OF quiet_wait_iso_downloaded [of E self iso_path n]]]
    by (simp del: key_of.simps)
  then show ?thesis by (simp add: cat_def)
qed

lemma keyless_then:
  assumes "behaves m V1 [[]] F1" and "\<And>x. V1 x \<Longrightarrow> behaves (f x) V Ok Fail"
  shows "behaves (io_bind m f) V Ok (F1 @ Fail)"
proof -
  have "behaves (io_bind m f) V (cat [[]] Ok) (F1 @ cat [[]] Fail)"
    using assms by (rule behaves_bind)
  then show ?thesis by (rule behaves_weaken) (auto simp: cat_def)
qed

lemma cleanup_iso_behaves:
  "behaves (cleanup_iso E self) (\<lambda>_. True) [[KCleanup]]
     (lapses E @ cat (lapses E) [[KCleanup]])"
proof -
  have r: "behaves (run E imc ''rm -f /mnt/imc/acc-os.iso'') (\<lambda>_. True) [[KCleanup]]
             (cat (lapses E) [[KCleanup]])" for imc
    using host_call_lapses [of E "Run imc ''rm -f /mnt/imc/acc-os.iso''"] by (simp add: run_def)
  have "behaves (io_bind (run E imc ''rm -f /mnt/imc/acc-os.iso'') (\<lambda>_. io_return ()))
          (\<lambda>_. True) (cat [[KCleanup]] [[]])
          (cat (lapses E) [[KCleanup]] @ cat [[KCleanup]] [])" for imc
    by (rule behaves_bind [OF r]) (simp add: behaves_return)
  then have "behaves (io_bind (run E imc ''rm -f /mnt/imc/acc-os.iso'') (\<lambda>_. io_return ()))
          (\<lambda>_. True) [[KCleanup]] (cat (lapses E) [[KCleanup]])" for imc
    by (simp add: cat_def)
  then show ?thesis
    unfolding cleanup_iso_def by (rule calm_then [OF calm_create_imc_rsh])
qed

text \<open>Deleting the stale image and inserting the new one.\<close>

lemma reinsert_behaves:
  "behaves (io_seq (cleanup_iso E self) (insert_media E self iso_path n)) (\<lambda>_. True)
     [[KCleanup, KInsert]]
     (lapses E @ cat (lapses E) [[KCleanup]] @ [[KCleanup, KInsert]])"
proof -
  have "behaves (io_seq (cleanup_iso E self) (insert_media E self iso_path n)) (\<lambda>_. True)
          (cat [[KCleanup]] [[KInsert]])
          ((lapses E @ cat (lapses E) [[KCleanup]]) @ cat [[KCleanup]] [[KInsert]])"
    by (rule behaves_seq [OF cleanup_iso_behaves insert_media_behaves])
  then show ?thesis by (simp add: cat_def)
qed

text \<open>What follows the insertion: the marker, the override, the reset, the wait, the clearing.\<close>

lemma boot_tail_behaves:
  "behaves
     (io_seq (write_file E imc imc_url_path iso_path)
     (io_seq (bootsource_override_cd E self)
     (io_seq (reboot E self)
     (io_seq (sleep E (5 * 60))
     (io_seq (restart_redfish E self)
             (unset_bootsource_override E self))))))
     (\<lambda>_. True) [[KEnable, KReset, KDisable]]
     (lapses E @ cat (lapses E) [[KEnable, KReset]])"
proof -
  have a: "behaves (io_seq (restart_redfish E self) (unset_bootsource_override E self))
             (\<lambda>_. True) [[KDisable]] (lapses E)"
    using calm_then_seq [OF calm_restart_redfish unset_bootsource_override_behaves] by simp
  have b: "behaves (io_seq (sleep E (5 * 60))
             (io_seq (restart_redfish E self) (unset_bootsource_override E self)))
             (\<lambda>_. True) [[KDisable]] (lapses E)"
    using calm_then_seq [OF sure_calm [where E = E, OF sure_sleep] a]
    by (rule behaves_weaken) simp_all
  have c: "behaves (io_seq (reboot E self) (io_seq (sleep E (5 * 60))
             (io_seq (restart_redfish E self) (unset_bootsource_override E self))))
             (\<lambda>_. True) [[KReset, KDisable]] (cat (lapses E) [[KReset]])"
    using behaves_seq [OF reboot_behaves b]
    by (rule behaves_weaken) (simp_all add: cat_def lapses_def)
  have d: "behaves (io_seq (bootsource_override_cd E self) (io_seq (reboot E self)
             (io_seq (sleep E (5 * 60))
             (io_seq (restart_redfish E self) (unset_bootsource_override E self)))))
             (\<lambda>_. True) [[KEnable, KReset, KDisable]] (cat (lapses E) [[KEnable, KReset]])"
    using behaves_seq [OF bootsource_override_cd_behaves c]
    by (rule behaves_weaken) (simp_all add: cat_def lapses_def)
  show ?thesis by (rule calm_then_seq [OF calm_write_file d])
qed

lemma sure_extract_server: "urlparse E u \<noteq> None \<Longrightarrow> sure (extract_server E u)"
  by (auto simp: extract_server_def sure_return)

lemma quiet_url_get_size: "quiet (url_get_size E u)"
  unfolding url_get_size_def
  by (intro quiet_bind quiet_catch quiet_http_call)
     (auto simp: quiet_return quiet_raise split: option.split)

lemma create_imc_rsh_value:
  "behaves (create_imc_rsh E self) (\<lambda>imc. imc = bmc_url self) [[]] (lapses E)"
proof (rule behaves_value)
  show "behaves (create_imc_rsh E self) (\<lambda>_. True) [[]] (lapses E)"
    using calm_create_imc_rsh by (simp add: calm_def)
  show "x = bmc_url self" if "fst (create_imc_rsh E self w) = Inr x" for w x
    using that
    by (auto simp: create_imc_rsh_def ssh_connect_def host_call_def io_seq_def io_bind_def
        io_return_def split: host_result.splits)
qed

text \<open>
  The boot operation, for any way the two tests may come out: \<open>Vn\<close> is known of the
  expected size, \<open>Vm\<close> of the URL match, \<open>Vs\<close> of the size match, and the branch taken
  on them behaves as \<open>OkB\<close>, \<open>FailB\<close>.
\<close>

lemma boot_behaves_gen:
  assumes sz: "behaves (url_get_size E iso_path) Vn [[]] []"
    and nn: "Vn None \<Longrightarrow> [] \<in> set FailN"
    and xs: "behaves (extract_server E iso_path) (\<lambda>_. True) [[]] FailX"
    and mu: "behaves (matching_url E (bmc_url self) iso_path) Vm [[]] []"
    and ss: "\<And>n. Vn (Some n) \<Longrightarrow> behaves (same_size E (bmc_url self) n) Vs [[]] []"
    and br: "\<And>m same n. Vm m \<Longrightarrow> (m \<longrightarrow> Vs same) \<Longrightarrow> (\<not> m \<longrightarrow> \<not> same) \<Longrightarrow>
               behaves (if \<not> m \<or> \<not> same
                        then io_seq (cleanup_iso E self) (insert_media E self iso_path n)
                        else io_return ())
                 (\<lambda>_. True) OkB FailB"
  shows "behaves (boot_iso_with_redfish E self iso_path) (\<lambda>_. True)
           (cat OkB [[KEnable, KReset, KDisable]])
           (FailN @ FailX @ lapses E @ FailB
              @ cat OkB (lapses E @ cat (lapses E) [[KEnable, KReset]]))"
proof -
  let ?Ok = "cat OkB [[KEnable, KReset, KDisable]]"
  let ?Fail = "FailB @ cat OkB (lapses E @ cat (lapses E) [[KEnable, KReset]])"
  let ?tail = "\<lambda>imc. io_seq (write_file E imc imc_url_path iso_path)
     (io_seq (bootsource_override_cd E self)
     (io_seq (reboot E self)
     (io_seq (sleep E (5 * 60))
     (io_seq (restart_redfish E self)
             (unset_bootsource_override E self)))))"
  let ?s7 = "\<lambda>imc n m same.
     io_seq (if \<not> m \<or> \<not> same
             then io_seq (cleanup_iso E self) (insert_media E self iso_path n)
             else io_return ())
            (?tail imc)"
  let ?s6 = "\<lambda>imc n m.
     io_bind (if m then same_size E imc n else io_return False) (\<lambda>same. ?s7 imc n m same)"
  let ?s5 = "\<lambda>imc n. io_bind (matching_url E imc iso_path) (\<lambda>m. ?s6 imc n m)"
  let ?s4 = "\<lambda>n. io_bind (create_imc_rsh E self) (\<lambda>imc. ?s5 imc n)"
  let ?s2 = "\<lambda>n. io_bind (extract_server E iso_path) (\<lambda>server.
               io_seq (prepare_imc E self server) (io_seq (restart_redfish E self) (?s4 n)))"
  have s7: "behaves (?s7 imc n m same) (\<lambda>_. True) ?Ok ?Fail"
    if "Vm m" and "m \<longrightarrow> Vs same" and "\<not> m \<longrightarrow> \<not> same" for imc n m same
    by (rule behaves_seq [OF br [OF that] boot_tail_behaves])
  have cond: "behaves (if m then same_size E imc n else io_return False)
                (\<lambda>same. (m \<longrightarrow> Vs same) \<and> (\<not> m \<longrightarrow> \<not> same)) [[]] []"
    if "Vn (Some n)" and "imc = bmc_url self" for imc n m
  proof (cases m)
    case True
    have "behaves (same_size E imc n) (\<lambda>same. (m \<longrightarrow> Vs same) \<and> (\<not> m \<longrightarrow> \<not> same)) [[]] []"
      unfolding that(2) by (rule behaves_weaken [OF ss [OF that(1)]]) (simp_all add: True)
    then show ?thesis by (simp only: True if_True)
  next
    case False
    have "behaves (io_return False) (\<lambda>same. (m \<longrightarrow> Vs same) \<and> (\<not> m \<longrightarrow> \<not> same)) [[]] []"
      by (rule behaves_return) (simp_all add: False)
    then show ?thesis by (simp only: False if_False)
  qed
  have s6: "behaves (?s6 imc n m) (\<lambda>_. True) ?Ok ?Fail"
    if "Vn (Some n)" and "Vm m" and "imc = bmc_url self" for imc n m
    by (rule sure_then [OF cond [OF that(1,3)]]) (rule s7 [OF that(2)], simp_all)
  have s5: "behaves (?s5 imc n) (\<lambda>_. True) ?Ok ?Fail"
    if "Vn (Some n)" and "imc = bmc_url self" for imc n
    unfolding that(2) by (rule sure_then [OF mu s6 [OF that(1) _ refl]])
  have s4: "behaves (?s4 n) (\<lambda>_. True) ?Ok (lapses E @ ?Fail)" if "Vn (Some n)" for n
    by (rule keyless_then [OF create_imc_rsh_value s5 [OF that]])
  have s3: "behaves (io_seq (restart_redfish E self) (?s4 n)) (\<lambda>_. True) ?Ok
              (lapses E @ lapses E @ ?Fail)" if "Vn (Some n)" for n
    by (rule calm_then_seq [OF calm_restart_redfish s4 [OF that]])
  have s2: "behaves (?s2 n) (\<lambda>_. True) ?Ok
              (FailX @ lapses E @ lapses E @ lapses E @ ?Fail)"
    if "Vn (Some n)" for n
    by (rule keyless_then [OF xs calm_then_seq [OF calm_prepare_imc s3 [OF that]]])
  have s1: "behaves (case size_opt of
                       None \<Rightarrow> io_raise (RuntimeError (FailedToDetermineFileSize iso_path))
                     | Some n \<Rightarrow> ?s2 n)
              (\<lambda>_. True) ?Ok (FailN @ FailX @ lapses E @ lapses E @ lapses E @ ?Fail)"
    if "Vn size_opt" for size_opt
  proof (cases size_opt)
    case None
    then have "[] \<in> set FailN" using nn that by simp
    then show ?thesis using None by (simp add: behaves_raise)
  next
    case (Some n)
    have "behaves (?s2 n) (\<lambda>_. True) ?Ok
            (FailN @ FailX @ lapses E @ lapses E @ lapses E @ ?Fail)"
      by (rule behaves_weaken [OF s2 [of n]]) (use that Some in auto)
    then show ?thesis using Some by simp
  qed
  have "behaves (boot_iso_with_redfish E self iso_path) (\<lambda>_. True) ?Ok
          (FailN @ FailX @ lapses E @ lapses E @ lapses E @ ?Fail)"
    unfolding boot_iso_with_redfish_def by (rule sure_then [OF sz s1])
  then show ?thesis by (rule behaves_weaken) auto
qed

text \<open>The boot operation, whatever the outside answers.\<close>

lemma boot_behaves:
  "behaves (boot_iso_with_redfish E self iso_path) (\<lambda>_. True)
     [[KEnable, KReset, KDisable], [KCleanup, KInsert, KEnable, KReset, KDisable]]
     [[], [KCleanup], [KCleanup, KInsert], [KEnable, KReset],
      [KCleanup, KInsert, KEnable, KReset]]"
proof -
  have br: "behaves (if \<not> m \<or> \<not> same
                     then io_seq (cleanup_iso E self) (insert_media E self iso_path n)
                     else io_return ())
              (\<lambda>_. True) [[], [KCleanup, KInsert]] [[], [KCleanup], [KCleanup, KInsert]]"
    for m same n
  proof (cases "\<not> m \<or> \<not> same")
    case True
    have "behaves (io_seq (cleanup_iso E self) (insert_media E self iso_path n)) (\<lambda>_. True)
            [[], [KCleanup, KInsert]] [[], [KCleanup], [KCleanup, KInsert]]"
      by (rule behaves_weaken [OF reinsert_behaves]) (simp_all add: cat_def lapses_def)
    then show ?thesis by (simp only: True if_True)
  next
    case False
    have "behaves (io_return ()) (\<lambda>_. True)
            [[], [KCleanup, KInsert]] [[], [KCleanup], [KCleanup, KInsert]]"
      by (rule behaves_return) simp_all
    then show ?thesis by (simp only: False if_False)
  qed
  have "behaves (boot_iso_with_redfish E self iso_path) (\<lambda>_. True)
          (cat [[], [KCleanup, KInsert]] [[KEnable, KReset, KDisable]])
          ([[]] @ [[]] @ lapses E @ [[], [KCleanup], [KCleanup, KInsert]]
              @ cat [[], [KCleanup, KInsert]] (lapses E @ cat (lapses E) [[KEnable, KReset]]))"
  proof (rule boot_behaves_gen [where Vn = "\<lambda>_. True" and Vm = "\<lambda>_. True" and Vs = "\<lambda>_. True"])
    show "behaves (url_get_size E iso_path) (\<lambda>_. True) [[]] []"
      using sure_url_get_size by (simp add: sure_def)
    show "[] \<in> set [[]]" by simp
    show "behaves (extract_server E iso_path) (\<lambda>_. True) [[]] [[]]"
      by (rule quiet_behaves [OF quiet_extract_server])
    show "behaves (matching_url E (bmc_url self) iso_path) (\<lambda>_. True) [[]] []"
      using sure_matching_url by (simp add: sure_def)
    show "behaves (same_size E (bmc_url self) n) (\<lambda>_. True) [[]] []" for n
      using sure_same_size by (simp add: sure_def)
    show "behaves (if \<not> m \<or> \<not> same
                   then io_seq (cleanup_iso E self) (insert_media E self iso_path n)
                   else io_return ())
            (\<lambda>_. True) [[], [KCleanup, KInsert]] [[], [KCleanup], [KCleanup, KInsert]]"
      for m same n
      by (rule br)
  qed
  then show ?thesis by (rule behaves_weaken) (simp_all add: cat_def lapses_def)
qed

section \<open>Example worlds\<close>

text \<open>Concrete environments, clients and worlds on which the theorems below are run.\<close>

definition world0 :: world where
  "world0 = \<lparr>trace = [], now = 0\<rparr>"

definition bmc_calvin :: IPUBMC where
  "bmc_calvin = IPUBMC_init \<lparr>url = ''imc'', user = ''root'', password = ''calvin''\<rparr> None"

text \<open>A server that answers the HEAD request without a \<^verbatim>\<open>Content-Length\<close>.\<close>

definition env_no_length :: env where
  "env_no_length =
     \<lparr>http = (\<lambda>tr ev. Responded \<lparr>status_code = 200, content_length = None, body = NotJson\<rparr>),
      host = (\<lambda>tr ev. HostDone 0 [] []),
      pong = (\<lambda>tr ev. True),
      latency = (\<lambda>tr ev. 0),
      urlparse = (\<lambda>u. None),
      path_exists = (\<lambda>p. False),
      port_to_ip = (\<lambda>p. []),
      server_port = 8000\<rparr>"

text \<open>
  A console that holds the image already: the marker file has the URL, \<^verbatim>\<open>du\<close> gives
  the 1000 bytes that the HEAD request announces, and no call on a host raises.
\<close>

definition env_match :: env where
  "env_match =
     \<lparr>http = (\<lambda>tr ev. Responded \<lparr>status_code = 200, content_length = Some ''1000'',
                                  body = NotJson\<rparr>),
      host = (\<lambda>tr ev. case ev of
                 ReadFile h p \<Rightarrow> HostDone 0 ''http://srv/rhel.iso'' []
               | Run h cmd \<Rightarrow> HostDone 0 ''1000 /mnt/imc/acc-os.iso'' []
               | _ \<Rightarrow> HostDone 0 [] []),
      pong = (\<lambda>tr ev. True),
      latency = (\<lambda>tr ev. 0),
      urlparse = (\<lambda>u. Some \<lparr>scheme = ''http'', netloc = ''srv'', path = ''/rhel.iso''\<rparr>),
      path_exists = (\<lambda>p. False),
      port_to_ip = (\<lambda>p. []),
      server_port = 8000\<rparr>"

text \<open>A console without the image: the marker file and the output of \<^verbatim>\<open>du\<close> are empty.\<close>

definition env_fresh :: env where
  "env_fresh =
     \<lparr>http = (\<lambda>tr ev. Responded \<lparr>status_code = 200, content_length = Some ''1000'',
                                  body = NotJson\<rparr>),
      host = (\<lambda>tr ev. HostDone 0 [] []),
      pong = (\<lambda>tr ev. True),
      latency = (\<lambda>tr ev. 0),
      urlparse = (\<lambda>u. Some \<lparr>scheme = ''http'', netloc = ''srv'', path = ''/rhel.iso''\<rparr>),
      path_exists = (\<lambda>p. False),
      port_to_ip = (\<lambda>p. []),
      server_port = 8000\<rparr>"

text \<open>
  The same console, lost after the five minutes that follow the reset: from then on
  every call on a host raises.
\<close>

definition env_console_lost :: env where
  "env_console_lost =
     \<lparr>http = (\<lambda>tr ev. Responded \<lparr>status_code = 200, content_length = Some ''1000'',
                                  body = NotJson\<rparr>),
      host = (\<lambda>tr ev. if Sleep 300 \<in> set tr then HostRaised
               else (case ev of
                 ReadFile h p \<Rightarrow> HostDone 0 ''http://srv/rhel.iso'' []
               | Run h cmd \<Rightarrow> HostDone 0 ''1000 /mnt/imc/acc-os.iso'' []
               | _ \<Rightarrow> HostDone 0 [] [])),
      pong = (\<lambda>tr ev. True),
      latency = (\<lambda>tr ev. 0),
      urlparse = (\<lambda>u. Some \<lparr>scheme = ''http'', netloc = ''srv'', path = ''/rhel.iso''\<rparr>),
      path_exists = (\<lambda>p. False),
      port_to_ip = (\<lambda>p. []),
      server_port = 8000\<rparr>"

text \<open>
  A card whose Redfish service answers with the name of another product, and a card
  that is an IPU on firmware 2.5.0.117.
\<close>

definition env_other_card :: env where
  "env_other_card =
     \<lparr>http = (\<lambda>tr ev. Responded \<lparr>status_code = 200, content_length = None,
                                  body = Json [(''Name'', JStr ''Some BMC'')]\<rparr>),
      host = (\<lambda>tr ev. HostDone 0 [] []),
      pong = (\<lambda>tr ev. True),
      latency = (\<lambda>tr ev. 0),
      urlparse = (\<lambda>u. None),
      path_exists = (\<lambda>p. False),
      port_to_ip = (\<lambda>p. []),
      server_port = 8000\<rparr>"

definition env_ipu_2_5_0 :: env where
  "env_ipu_2_5_0 =
     \<lparr>http = (\<lambda>tr ev. Responded \<lparr>status_code = 200, content_length = None,
                                  body = Json [(''Name'', JStr ''Intel IPU'')]\<rparr>),
      host = (\<lambda>tr ev. HostDone 0 ''2.5.0.117'' []),
      pong = (\<lambda>tr ev. True),
      latency = (\<lambda>tr ev. 0),
      urlparse = (\<lambda>u. None),
      path_exists = (\<lambda>p. False),
      port_to_ip = (\<lambda>p. []),
      server_port = 8000\<rparr>"



text \<open>
  A service that reports the media inserted at once, while the file on the console is
  still empty; and a service that never reports it, while the file has its full size
  and every sleep overshoots by an hour.
\<close>

definition env_inserted_early :: env where
  "env_inserted_early =
     \<lparr>http = (\<lambda>tr ev. Responded \<lparr>status_code = 200, content_length = Some ''1000'',
                 body = Json [(''Inserted'', JBool True), (''ImageName'', JStr ''rhel.iso'')]\<rparr>),
      host = (\<lambda>tr ev. HostDone 0 ''0 /mnt/imc/acc-os.iso'' []),
      pong = (\<lambda>tr ev. True),
      latency = (\<lambda>tr ev. 0),
      urlparse = (\<lambda>u. Some \<lparr>scheme = ''http'', netloc = ''srv'', path = ''/rhel.iso''\<rparr>),
      path_exists = (\<lambda>p. False),
      port_to_ip = (\<lambda>p. []),
      server_port = 8000\<rparr>"

definition env_never_inserted :: env where
  "env_never_inserted =
     \<lparr>http = (\<lambda>tr ev. Responded \<lparr>status_code = 200, content_length = Some ''1000'',
                 body = Json [(''Inserted'', JBool False), (''ImageName'', JStr ''rhel.iso'')]\<rparr>),
      host = (\<lambda>tr ev. HostDone 0 ''1000 /mnt/imc/acc-os.iso'' []),
      pong = (\<lambda>tr ev. True),
      latency = (\<lambda>tr ev. case ev of Sleep n \<Rightarrow> 3600 | _ \<Rightarrow> 0),
      urlparse = (\<lambda>u. Some \<lparr>scheme = ''http'', netloc = ''srv'', path = ''/rhel.iso''\<rparr>),
      path_exists = (\<lambda>p. False),
      port_to_ip = (\<lambda>p. []),
      server_port = 8000\<rparr>"

text \<open>A card that never answers a ping, behind a console that always does what it is told.\<close>

definition env_silent :: env where
  "env_silent =
     \<lparr>http = (\<lambda>tr ev. RequestFailed ConnectionError),
      host = (\<lambda>tr ev. HostDone 0 [] []),
      pong = (\<lambda>tr ev. False),
      latency = (\<lambda>tr ev. 0),
      urlparse = (\<lambda>u. None),
      path_exists = (\<lambda>p. False),
      port_to_ip = (\<lambda>p. []),
      server_port = 8000\<rparr>"

definition node_calvin :: IPUClusterNode where
  "node_calvin =
     \<lparr>external_port = ''eno1'', network_api_port = ''eno2'',
      config = \<lparr>ip = Some ''acc'',
                bmc = Some \<lparr>url = ''imc'', user = ''root'', password = ''calvin''\<rparr>,
                dpu_host = None\<rparr>\<rparr>"

text \<open>
  A service that reports the media inserted from the second poll on: its answer changes
  once the history holds a sleep of 10 seconds.
\<close>

definition env_inserted_second :: env where
  "env_inserted_second =
     \<lparr>http = (\<lambda>tr ev. if Sleep 10 \<in> set tr
                then Responded \<lparr>status_code = 200, content_length = None,
                       body = Json [(''Inserted'', JBool True), (''ImageName'', JStr ''rhel.iso'')]\<rparr>
                else Responded \<lparr>status_code = 200, content_length = None,
                       body = Json [(''Inserted'', JBool False), (''ImageName'', JStr [])]\<rparr>),
      host = (\<lambda>tr ev. HostDone 0 ''500 /mnt/imc/acc-os.iso'' []),
      pong = (\<lambda>tr ev. True),
      latency = (\<lambda>tr ev. 0),
      urlparse = (\<lambda>u. Some \<lparr>scheme = ''http'', netloc = ''srv'', path = ''/rhel.iso''\<rparr>),
      path_exists = (\<lambda>p. False),
      port_to_ip = (\<lambda>p. []),
      server_port = 8000\<rparr>"

text \<open>
  A console whose marker file has the URL while \<^verbatim>\<open>du\<close> gives 999 bytes of the 1000 that
  the HEAD request announces; and a console without the image that refuses the
  \<^verbatim>\<open>rm\<close> of the stale file.
\<close>

definition env_resized :: env where
  "env_resized =
     \<lparr>http = (\<lambda>tr ev. Responded \<lparr>status_code = 200, content_length = Some ''1000'',
                                  body = NotJson\<rparr>),
      host = (\<lambda>tr ev. case ev of
                 ReadFile h p \<Rightarrow> HostDone 0 ''http://srv/rhel.iso'' []
               | Run h cmd \<Rightarrow> HostDone 0 ''999 /mnt/imc/acc-os.iso'' []
               | _ \<Rightarrow> HostDone 0 [] []),
      pong = (\<lambda>tr ev. True),
      latency = (\<lambda>tr ev. 0),
      urlparse = (\<lambda>u. Some \<lparr>scheme = ''http'', netloc = ''srv'', path = ''/rhel.iso''\<rparr>),
      path_exists = (\<lambda>p. False),
      port_to_ip = (\<lambda>p. []),
      server_port = 8000\<rparr>"

definition env_rm_refused :: env where
  "env_rm_refused =
     \<lparr>http = (\<lambda>tr ev. Responded \<lparr>status_code = 200, content_length = Some ''1000'',
                                  body = NotJson\<rparr>),
      host = (\<lambda>tr ev. case ev of
                 Run h cmd \<Rightarrow> if cmd = ''rm -f /mnt/imc/acc-os.iso'' then HostRaised
                              else HostDone 0 [] []
               | _ \<Rightarrow> HostDone 0 [] []),
      pong = (\<lambda>tr ev. True),
      latency = (\<lambda>tr ev. 0),
      urlparse = (\<lambda>u. Some \<lparr>scheme = ''http'', netloc = ''srv'', path = ''/rhel.iso''\<rparr>),
      path_exists = (\<lambda>p. False),
      port_to_ip = (\<lambda>p. []),
      server_port = 8000\<rparr>"

section \<open>The claims\<close>

subsection \<open>Running the model on an example world\<close>

lemmas io_defs = io_return_def io_raise_def io_bind_def io_seq_def io_catch_def emit_def
  sleep_def monotonic_def http_call_def raise_for_status_def response_json_def host_call_def
  ssh_connect_def run_def read_file_def write_file_def ping_def wait_ping_def

lemmas client_defs = restart_redfish_def create_imc_rsh_def get_file_size_def cleanup_iso_def
  extract_server_def url_extract_filename_def url_get_size_def requests_get_def
  requests_post_def requests_patch_def redfish_available_def virtual_media_is_inserted_def
  log_progress_def wait_iso_downloaded_def insert_media_def bootsource_override_cd_def
  reboot_def unset_bootsource_override_def prepare_imc_def matching_url_def same_size_def
  boot_iso_with_redfish_def

subsection \<open>The size of the image\<close>

lemma url_get_size_trace: "trace (snd (url_get_size E iso_path w)) = trace w @ [HttpHead iso_path]"
  by (simp add: url_get_size_def io_bind_def io_catch_def http_call_def io_return_def io_raise_def
      emit_trace split: http_result.split option.split)

lemma url_get_size_no_header:
  assumes "http E (trace w) (HttpHead iso_path) = Responded r" and "content_length r = None"
  shows "fst (url_get_size E iso_path w) = Inr None"
  using assms
  by (simp add: url_get_size_def io_bind_def io_catch_def http_call_def io_return_def)

text \<open>
  C6. When \<^verbatim>\<open>url_get_size\<close> finds no usable size for the image URL (the HEAD request
  fails, has no \<^verbatim>\<open>Content-Length\<close>, or one that is no non-negative integer),
  \<^verbatim>\<open>boot_iso_with_redfish\<close> raises the RuntimeError "failed to determine file size" and
  the HEAD request is the only call it has made: no InsertMedia action was sent.
\<close>

theorem size_unknown_fails_before_insert:
  assumes "fst (url_get_size E iso_path w) = Inr None"
  shows "fst (boot_iso_with_redfish E self iso_path w)
           = Inl (RuntimeError (FailedToDetermineFileSize iso_path))
         \<and> trace (snd (boot_iso_with_redfish E self iso_path w)) = trace w @ [HttpHead iso_path]
         \<and> KInsert \<notin> set (keys (events_of (boot_iso_with_redfish E self iso_path) w))"
proof -
  obtain r w1 where u: "url_get_size E iso_path w = (r, w1)" by (cases "url_get_size E iso_path w")
  have r: "r = Inr None" using assms u by simp
  have t: "trace w1 = trace w @ [HttpHead iso_path]" using url_get_size_trace [of E iso_path w] u by simp
  have b: "boot_iso_with_redfish E self iso_path w
             = (Inl (RuntimeError (FailedToDetermineFileSize iso_path)), w1)"
    using u r by (simp add: boot_iso_with_redfish_def io_bind_def io_raise_def)
  show ?thesis using b t by (simp add: events_of_def)
qed

theorem size_unknown_fails_before_insert_witness:
  "fst (url_get_size env_no_length ''http://srv/rhel.iso'' world0) = Inr None
   \<and> fst (boot_iso_with_redfish env_no_length bmc_calvin ''http://srv/rhel.iso'' world0)
       = Inl (RuntimeError (FailedToDetermineFileSize ''http://srv/rhel.iso''))
   \<and> trace (snd (boot_iso_with_redfish env_no_length bmc_calvin ''http://srv/rhel.iso'' world0))
       = [HttpHead ''http://srv/rhel.iso'']"
proof -
  have h: "fst (url_get_size env_no_length ''http://srv/rhel.iso'' world0) = Inr None"
    by (rule url_get_size_no_header [where r = "\<lparr>status_code = 200, content_length = None, body = NotJson\<rparr>"])
       (simp_all add: env_no_length_def)
  show ?thesis
    using h size_unknown_fails_before_insert [OF h, of bmc_calvin] by (simp add: world0_def)
qed

subsection \<open>Reading the keys of a run\<close>

lemma behaves_keys:
  assumes "behaves m V Ok Fail"
  shows "(case fst (m w) of
            Inr x \<Rightarrow> V x \<and> keys (events_of m w) \<in> set Ok
          | Inl e \<Rightarrow> keys (events_of m w) \<in> set Fail)"
proof -
  from assms obtain evs where e: "trace (snd (m w)) = trace w @ evs"
    and c: "(case fst (m w) of Inr x \<Rightarrow> V x \<and> keys evs \<in> set Ok | Inl e \<Rightarrow> keys evs \<in> set Fail)"
    unfolding behaves_def by blast
  have ev: "events_of m w = evs" using e by (simp add: events_of_def)
  show ?thesis unfolding ev by (rule c)
qed

lemma behaves_returns:
  assumes "behaves m V Ok []"
  shows "\<exists>x. fst (m w) = Inr x \<and> V x \<and> keys (events_of m w) \<in> set Ok"
  using behaves_keys [OF assms, of w] by (cases "fst (m w)") simp_all

lemma py_int_1000: "py_int ''1000'' = Some 1000"
  by (simp add: py_int_def py_strip_def is_space_def is_digit_def)

lemma strip_1000: "py_strip ''1000'' = ''1000''"
  by (simp add: py_strip_def is_space_def)

lemma first_token_du: "first_token ''1000 /mnt/imc/acc-os.iso'' = Some ''1000''"
  by (simp add: first_token_def is_space_def)

lemma shlex_quote_iso_file: "shlex_quote iso_file = ''/mnt/imc/acc-os.iso''"
  by (simp add: shlex_quote_def iso_file_def is_safe_char_def)

text \<open>The boot operation when the console holds the image already.\<close>

lemma boot_behaves_match:
  assumes sz: "\<And>w. fst (url_get_size E iso_path w) = Inr (Some n)"
    and mu: "\<And>w. fst (matching_url E (bmc_url self) iso_path w) = Inr True"
    and ss: "\<And>w. fst (same_size E (bmc_url self) n w) = Inr True"
    and xs: "behaves (extract_server E iso_path) (\<lambda>_. True) [[]] FailX"
  shows "behaves (boot_iso_with_redfish E self iso_path) (\<lambda>_. True)
           [[KEnable, KReset, KDisable]]
           (FailX @ lapses E @ cat (lapses E) [[KEnable, KReset]])"
proof -
  have "behaves (boot_iso_with_redfish E self iso_path) (\<lambda>_. True)
          (cat [[]] [[KEnable, KReset, KDisable]])
          ([] @ FailX @ lapses E @ []
             @ cat [[]] (lapses E @ cat (lapses E) [[KEnable, KReset]]))"
  proof (rule boot_behaves_gen [where Vn = "\<lambda>r. r = Some n" and Vm = "\<lambda>b. b" and Vs = "\<lambda>b. b"])
    show "behaves (url_get_size E iso_path) (\<lambda>r. r = Some n) [[]] []"
      by (rule behaves_value [OF sure_url_get_size [unfolded sure_def]]) (use sz in simp)
    show "[] \<in> set []" if "None = Some n" using that by simp
    show "behaves (extract_server E iso_path) (\<lambda>_. True) [[]] FailX" by (rule xs)
    show "behaves (matching_url E (bmc_url self) iso_path) (\<lambda>b. b) [[]] []"
      by (rule behaves_value [OF sure_matching_url [unfolded sure_def]]) (use mu in simp)
    show "behaves (same_size E (bmc_url self) n') (\<lambda>b. b) [[]] []" if "Some n' = Some n" for n'
      using that by (intro behaves_value [OF sure_same_size [unfolded sure_def]]) (use ss in simp)
    show "behaves (if \<not> m \<or> \<not> same
                   then io_seq (cleanup_iso E self) (insert_media E self iso_path n')
                   else io_return ())
            (\<lambda>_. True) [[]] []"
      if "m" and "m \<longrightarrow> same" for m same n'
      using that by (simp add: behaves_return)
  qed
  then show ?thesis by (rule behaves_weaken) (simp_all add: cat_def)
qed

subsection \<open>Skipping or repeating the insertion\<close>

lemma io_bind_assoc: "io_bind (io_bind m f) g = io_bind m (\<lambda>x. io_bind (f x) g)"
  by (rule ext) (simp add: io_bind_def split: prod.split sum.split)

lemma io_bind_return: "io_bind (io_return x) f = f x"
  by (rule ext) (simp add: io_bind_def io_return_def)

lemma io_bind_raise: "io_bind (io_raise e) f = io_raise e"
  by (rule ext) (simp add: io_bind_def io_raise_def)

lemma io_bind_case_option:
  "io_bind (case x of None \<Rightarrow> a | Some y \<Rightarrow> b y) k
     = (case x of None \<Rightarrow> io_bind a k | Some y \<Rightarrow> io_bind (b y) k)"
  by (cases x) simp_all

lemma boot_iso_with_redfish_split:
  "boot_iso_with_redfish E self iso_path =
     io_bind (boot_prologue E self iso_path) (\<lambda>(expected_size, imc).
       io_bind (matching_url E imc iso_path) (\<lambda>m.
       io_bind (if m then same_size E imc expected_size else io_return False) (\<lambda>same.
       io_seq (if \<not> m \<or> \<not> same
               then io_seq (cleanup_iso E self)
                           (insert_media E self iso_path expected_size)
               else io_return ())
      (io_seq (write_file E imc imc_url_path iso_path)
      (io_seq (bootsource_override_cd E self)
      (io_seq (reboot E self)
      (io_seq (sleep E (5 * 60))
      (io_seq (restart_redfish E self)
              (unset_bootsource_override E self)))))))))"
  unfolding boot_iso_with_redfish_def boot_prologue_def io_seq_def
  by (simp only: io_bind_assoc io_bind_case_option io_bind_return io_bind_raise prod.case)

lemma matching_url_run:
  "matching_url E imc iso_path w
     = (Inr (marker_is iso_path (host E (trace w) (marker_read imc))),
        emit E (marker_read imc) w)"
  by (simp add: matching_url_def read_file_def host_call_def io_bind_def io_catch_def
      io_return_def io_raise_def marker_read_def split: host_result.split)

lemma get_file_size_run:
  "get_file_size E imc iso_file w
     = (Inr (size_on_console (host E (trace w) (size_read imc))), emit E (size_read imc) w)"
  by (simp add: get_file_size_def run_def host_call_def io_bind_def io_catch_def io_return_def
      io_raise_def size_read_def split: host_result.split option.split)

lemma same_size_run:
  "same_size E imc n w
     = (Inr (size_on_console (host E (trace w) (size_read imc)) = Some n),
        emit E (size_read imc) w)"
  by (auto simp: same_size_def get_file_size_run io_bind_def io_return_def split: option.split)

lemma url_get_size_run:
  "url_get_size E iso_path w
     = (Inr (announced_size (http E (trace w) (HttpHead iso_path))), emit E (HttpHead iso_path) w)"
  by (simp add: url_get_size_def http_call_def io_bind_def io_catch_def io_return_def
      io_raise_def split: http_result.split option.split)

lemma cleanup_iso_run:
  "cleanup_iso E self w
     = (if host E (trace w) (console_login self) = HostRaised
        then (Inl HostError, emit E (console_login self) w)
        else if host E (trace w @ [console_login self]) (stale_rm (bmc_url self)) = HostRaised
        then (Inl HostError, emit E (stale_rm (bmc_url self)) (emit E (console_login self) w))
        else (Inr (), emit E (stale_rm (bmc_url self)) (emit E (console_login self) w)))"
  by (simp add: cleanup_iso_def create_imc_rsh_def ssh_connect_def run_def host_call_def
      io_bind_def io_seq_def io_return_def console_login_def stale_rm_def emit_trace
      split: host_result.split)


lemma quiet_boot_prologue: "quiet (boot_prologue E self iso_path)"
  unfolding boot_prologue_def
  by (intro quiet_bind quiet_url_get_size)
     (auto intro!: quiet_bind quiet_seq quiet_extract_server quiet_prepare_imc
        quiet_restart_redfish quiet_create_imc_rsh quiet_return quiet_raise split: option.split)



lemma io_bind_InrD:
  assumes "io_bind m f w = (Inr y, w2)"
  shows "\<exists>x w1. m w = (Inr x, w1) \<and> f x w1 = (Inr y, w2)"
  using assms by (auto simp: io_bind_def split: prod.splits sum.splits)

lemma boot_prologue_value:
  assumes p: "boot_prologue E self iso_path w = (Inr (n, imc), w1)"
  shows "imc = bmc_url self \<and> announced_size (http E (trace w) (HttpHead iso_path)) = Some n"
proof -
  from io_bind_InrD [OF p [unfolded boot_prologue_def]] obtain so w0
    where u: "url_get_size E iso_path w = (Inr so, w0)"
      and r: "(case so of
                 None \<Rightarrow> io_raise (RuntimeError (FailedToDetermineFileSize iso_path))
               | Some expected_size \<Rightarrow>
                   io_bind (extract_server E iso_path) (\<lambda>server.
                   io_seq (prepare_imc E self server)
                  (io_seq (restart_redfish E self)
                  (io_bind (create_imc_rsh E self) (\<lambda>imc.
                   io_return (expected_size, imc)))))) w0 = (Inr (n, imc), w1)"
    by blast
  have so: "so = announced_size (http E (trace w) (HttpHead iso_path))"
    using u by (simp add: url_get_size_run)
  obtain n' where sn: "so = Some n'" using r by (cases so) (simp_all add: io_raise_def)
  from r have "io_bind (extract_server E iso_path) (\<lambda>server.
                   io_bind (prepare_imc E self server) (\<lambda>_.
                   io_bind (restart_redfish E self) (\<lambda>_.
                   io_bind (create_imc_rsh E self) (\<lambda>imc.
                   io_return (n', imc))))) w0 = (Inr (n, imc), w1)"
    by (simp add: sn io_seq_def)
  from io_bind_InrD [OF this] obtain server wa where
    "io_bind (prepare_imc E self server) (\<lambda>_.
       io_bind (restart_redfish E self) (\<lambda>_.
       io_bind (create_imc_rsh E self) (\<lambda>imc. io_return (n', imc)))) wa = (Inr (n, imc), w1)"
    by blast
  from io_bind_InrD [OF this] obtain wb where
    "io_bind (restart_redfish E self) (\<lambda>_.
       io_bind (create_imc_rsh E self) (\<lambda>imc. io_return (n', imc))) wb = (Inr (n, imc), w1)"
    by blast
  from io_bind_InrD [OF this] obtain wc where
    "io_bind (create_imc_rsh E self) (\<lambda>imc. io_return (n', imc)) wc = (Inr (n, imc), w1)"
    by blast
  from io_bind_InrD [OF this] obtain imc' wd where
    c: "create_imc_rsh E self wc = (Inr imc', wd)"
    and e: "io_return (n', imc') wd = (Inr (n, imc), w1)"
    by blast
  have "imc' = bmc_url self"
    using c
    by (auto simp: create_imc_rsh_def ssh_connect_def host_call_def io_seq_def io_bind_def
        io_return_def split: host_result.splits)
  then show ?thesis using e so sn by (simp add: io_return_def)
qed

lemma io_bind_Inr: "m w = (Inr x, w1) \<Longrightarrow> io_bind m f w = f x w1"
  by (simp add: io_bind_def)

lemma io_seq_Inr: "m w = (Inr x, w1) \<Longrightarrow> io_seq m k w = k w1"
  by (simp add: io_seq_def io_bind_def)

lemma io_seq_Inl: "m w = (Inl e, w1) \<Longrightarrow> io_seq m k w = (Inl e, w1)"
  by (simp add: io_seq_def io_bind_def)

lemma io_seq_return: "io_seq (io_return ()) k = k"
  by (rule ext) (simp add: io_seq_def io_bind_def io_return_def)

lemma inserts_append: "inserts (a @ b) = inserts a @ inserts b"
  by (simp add: inserts_def keys_append)

lemma inserts_keyless: "keys e = [] \<Longrightarrow> inserts e = []"
  by (simp add: inserts_def)

lemma events_of_trace: "trace (snd (m w)) = trace w @ evs \<Longrightarrow> events_of m w = evs"
  by (simp add: events_of_def)

lemma key_of_the_test [simp]:
  "key_of (marker_read imc) = None" "key_of (size_read imc) = None"
  "key_of (console_login self) = None" "key_of (stale_rm imc) = Some KCleanup"
  by (simp_all add: marker_read_def size_read_def console_login_def stale_rm_def)

lemma behaves_inserts:
  assumes "behaves m V Ok Fail"
    and "\<And>ks. ks \<in> set Ok \<union> set Fail \<Longrightarrow> filter (\<lambda>k. k = KCleanup \<or> k = KInsert) ks = R"
  shows "\<exists>evs. trace (snd (m w)) = trace w @ evs \<and> inserts evs = R"
proof -
  obtain r w' where mw: "m w = (r, w')" by (cases "m w")
  from behavesD [OF assms(1) mw] obtain evs where t: "trace w' = trace w @ evs"
    and ok: "\<forall>x. r = Inr x \<longrightarrow> V x \<and> keys evs \<in> set Ok"
    and fl: "\<forall>e. r = Inl e \<longrightarrow> keys evs \<in> set Fail"
    by blast
  have "keys evs \<in> set Ok \<union> set Fail" using ok fl by (cases r) auto
  from assms(2) [OF this] have "inserts evs = R" by (simp add: inserts_def)
  then show ?thesis using t mw by auto
qed

lemma boot_tail_inserts:
  "\<exists>evs. trace (snd ((io_seq (write_file E imc imc_url_path iso_path)
     (io_seq (bootsource_override_cd E self)
     (io_seq (reboot E self)
     (io_seq (sleep E (5 * 60))
     (io_seq (restart_redfish E self)
             (unset_bootsource_override E self)))))) w)) = trace w @ evs \<and> inserts evs = []"
  by (rule behaves_inserts [OF boot_tail_behaves])
     (auto simp: cat_def lapses_def split: if_splits)

lemma insert_then_tail_inserts:
  "\<exists>evs. trace (snd ((io_seq (insert_media E self iso_path n)
     (io_seq (write_file E imc imc_url_path iso_path)
     (io_seq (bootsource_override_cd E self)
     (io_seq (reboot E self)
     (io_seq (sleep E (5 * 60))
     (io_seq (restart_redfish E self)
             (unset_bootsource_override E self))))))) w)) = trace w @ evs
         \<and> inserts evs = [KInsert]"
  by (rule behaves_inserts [OF behaves_seq [OF insert_media_behaves boot_tail_behaves]])
     (auto simp: cat_def lapses_def split: if_splits)

lemma boot_inserts:
  assumes p: "boot_prologue E self iso_path w = (Inr (n, imc), w1)"
  shows "inserts (events_of (boot_iso_with_redfish E self iso_path) w)
           = (if skip_test E imc iso_path n (trace w1) then []
              else if host E (after_test E imc iso_path (trace w1)) (console_login self)
                        = HostRaised
              then []
              else if host E (after_test E imc iso_path (trace w1) @ [console_login self])
                        (stale_rm imc) = HostRaised
              then [KCleanup]
              else [KCleanup, KInsert])"
proof -
  let ?T = "io_seq (write_file E imc imc_url_path iso_path)
     (io_seq (bootsource_override_cd E self)
     (io_seq (reboot E self)
     (io_seq (sleep E (5 * 60))
     (io_seq (restart_redfish E self)
             (unset_bootsource_override E self)))))"
  let ?R = "io_seq (cleanup_iso E self) (insert_media E self iso_path n)"
  define m where "m = marker_is iso_path (host E (trace w1) (marker_read imc))"
  define wa where "wa = emit E (marker_read imc) w1"
  define same where
    "same = (m \<and> size_on_console (host E (trace wa) (size_read imc)) = Some n)"
  define w2 where "w2 = (if m then emit E (size_read imc) wa else wa)"
  define mid where "mid = [marker_read imc] @ (if m then [size_read imc] else [])"
  have imc: "imc = bmc_url self" using boot_prologue_value [OF p] by simp
  from quietD [OF quiet_boot_prologue, of E self iso_path w] p
  obtain e0 where t0: "trace w1 = trace w @ e0" and k0: "keys e0 = []" by auto
  have ta: "trace wa = trace w1 @ [marker_read imc]" by (simp add: wa_def emit_trace)
  have t2: "trace w2 = trace w1 @ mid" by (simp add: w2_def mid_def ta emit_trace)
  have at: "after_test E imc iso_path (trace w1) = trace w2"
    by (simp add: t2 mid_def after_test_def m_def)
  have sk: "skip_test E imc iso_path n (trace w1) = same"
    by (simp add: skip_test_def same_def m_def ta)
  have km: "inserts mid = []"
    by (simp add: mid_def inserts_def)
  have mu: "matching_url E imc iso_path w1 = (Inr m, wa)"
    by (simp add: matching_url_run m_def wa_def)
  have ss: "(if m then same_size E imc n else io_return False) wa = (Inr same, w2)"
    by (cases m) (simp_all add: same_size_run io_return_def same_def w2_def)
  have b: "boot_iso_with_redfish E self iso_path w
             = io_seq (if \<not> m \<or> \<not> same then ?R else io_return ()) ?T w2"
    by (simp only: boot_iso_with_redfish_split
          io_bind_Inr [where m = "boot_prologue E self iso_path" and w = w, OF p] prod.case
          io_bind_Inr [where m = "matching_url E imc iso_path" and w = w1, OF mu]
          io_bind_Inr [where m = "if m then same_size E imc n else io_return False"
                         and w = wa, OF ss])
  have fin: "inserts (events_of (boot_iso_with_redfish E self iso_path) w) = inserts evs"
    if "trace (snd (boot_iso_with_redfish E self iso_path w)) = trace w2 @ evs" for evs
  proof -
    have "trace (snd (boot_iso_with_redfish E self iso_path w)) = trace w @ (e0 @ mid @ evs)"
      using that t2 t0 by simp
    from events_of_trace [where m = "boot_iso_with_redfish E self iso_path" and w = w, OF this]
    show ?thesis
      using k0 km by (simp add: inserts_append inserts_keyless)
  qed
  show ?thesis
  proof (cases same)
    case True
    have mt: "m" using True by (simp add: same_def)
    have "boot_iso_with_redfish E self iso_path w = ?T w2"
      using True mt by (simp only: b) (simp add: io_seq_return)
    moreover obtain e3 where "trace (snd (?T w2)) = trace w2 @ e3" and "inserts e3 = []"
      using boot_tail_inserts [of E imc iso_path self w2] by blast
    ultimately show ?thesis using fin [of e3] sk True by simp
  next
    case False
    have b': "boot_iso_with_redfish E self iso_path w = io_seq ?R ?T w2"
      using False same_def by (simp only: b) simp
    let ?login = "console_login self"
    let ?rm = "stale_rm imc"
    show ?thesis
    proof (cases "host E (trace w2) ?login = HostRaised")
      case True
      have "cleanup_iso E self w2 = (Inl HostError, emit E ?login w2)"
        using True by (simp add: cleanup_iso_run)
      then have "?R w2 = (Inl HostError, emit E ?login w2)"
        by (rule io_seq_Inl [where w = w2])
      then have "io_seq ?R ?T w2 = (Inl HostError, emit E ?login w2)"
        by (rule io_seq_Inl [where w = w2])
      then have "trace (snd (boot_iso_with_redfish E self iso_path w)) = trace w2 @ [?login]"
        by (simp add: b' emit_trace)
      from fin [OF this] show ?thesis using sk False True at by (simp add: inserts_def)
    next
      case login: False
      show ?thesis
      proof (cases "host E (trace w2 @ [?login]) ?rm = HostRaised")
        case True
        have "cleanup_iso E self w2 = (Inl HostError, emit E ?rm (emit E ?login w2))"
          using True login by (simp add: cleanup_iso_run imc)
        then have "?R w2 = (Inl HostError, emit E ?rm (emit E ?login w2))"
          by (rule io_seq_Inl [where w = w2])
        then have "io_seq ?R ?T w2 = (Inl HostError, emit E ?rm (emit E ?login w2))"
          by (rule io_seq_Inl [where w = w2])
        then have "trace (snd (boot_iso_with_redfish E self iso_path w))
                     = trace w2 @ [?login, ?rm]"
          by (simp add: b' emit_trace)
        from fin [OF this] have "inserts (events_of (boot_iso_with_redfish E self iso_path) w)
                     = inserts ([?login] @ [?rm])"
          by simp
        then have "inserts (events_of (boot_iso_with_redfish E self iso_path) w) = [KCleanup]"
          by (simp only: inserts_append) (simp add: inserts_def)
        then show ?thesis using sk False True login at by simp
      next
        case rm: False
        define w3 where "w3 = emit E ?rm (emit E ?login w2)"
        have c: "cleanup_iso E self w2 = (Inr (), w3)"
          using rm login by (simp add: cleanup_iso_run imc w3_def)
        have r: "?R w2 = insert_media E self iso_path n w3"
          using c by (rule io_seq_Inr [where w = w2])
        have "io_seq ?R ?T w2 = io_seq (insert_media E self iso_path n) ?T w3"
          by (simp add: io_seq_def [of ?R] io_seq_def [of "insert_media E self iso_path n"]
                io_bind_def r)
        moreover obtain e4 where
          "trace (snd (io_seq (insert_media E self iso_path n) ?T w3)) = trace w3 @ e4"
          and k4: "inserts e4 = [KInsert]"
          using insert_then_tail_inserts [of E self iso_path n imc w3] by blast
        ultimately have "trace (snd (boot_iso_with_redfish E self iso_path w))
                     = trace w2 @ ([?login] @ [?rm] @ e4)"
          by (simp add: b' w3_def emit_trace)
        from fin [OF this] have "inserts (events_of (boot_iso_with_redfish E self iso_path) w)
                     = inserts ([?login] @ [?rm] @ e4)"
          by simp
        then have "inserts (events_of (boot_iso_with_redfish E self iso_path) w)
                     = [KCleanup, KInsert]"
          by (simp only: inserts_append k4)
             (simp add: inserts_def)
        then show ?thesis using sk False rm login at by simp
      qed
    qed
  qed
qed

lemma env_match_size: "fst (url_get_size env_match iso_path w) = Inr (Some 1000)"
  by (simp add: url_get_size_def http_call_def io_bind_def io_catch_def io_return_def
      env_match_def strip_1000 py_int_1000)

lemma env_match_url:
  "fst (matching_url env_match h ''http://srv/rhel.iso'' w) = Inr True"
  by (simp add: matching_url_def read_file_def host_call_def io_bind_def io_catch_def
      io_return_def env_match_def)

lemma env_match_same: "fst (same_size env_match h 1000 w) = Inr True"
  by (simp add: same_size_def get_file_size_def run_def host_call_def io_bind_def io_catch_def
      io_return_def env_match_def first_token_du py_int_1000)

lemma env_fresh_reliable: "reliable env_fresh"
  by (simp add: reliable_def env_fresh_def)

lemma env_match_reliable: "reliable env_match"
  by (simp add: reliable_def env_match_def split: event.split)

lemma boot_prologue_raises:
  assumes "fst (boot_prologue E self iso_path w) = Inl e"
  shows "fst (boot_iso_with_redfish E self iso_path w) = Inl e
         \<and> inserts (events_of (boot_iso_with_redfish E self iso_path) w) = []"
proof -
  obtain w1 where p: "boot_prologue E self iso_path w = (Inl e, w1)"
    using assms by (cases "boot_prologue E self iso_path w") simp
  from quietD [OF quiet_boot_prologue, of E self iso_path w] p
  obtain e0 where t0: "trace w1 = trace w @ e0" and k0: "keys e0 = []" by auto
  have b: "boot_iso_with_redfish E self iso_path w = (Inl e, w1)"
    by (simp only: boot_iso_with_redfish_split) (simp add: io_bind_def p)
  have "trace (snd (boot_iso_with_redfish E self iso_path w)) = trace w @ e0"
    using b t0 by simp
  from events_of_trace [where m = "boot_iso_with_redfish E self iso_path" and w = w, OF this]
  show ?thesis using b k0 by (simp add: inserts_keyless)
qed

lemma sure_seq: "sure m \<Longrightarrow> sure k \<Longrightarrow> sure (io_seq m k)"
  by (simp add: io_seq_def sure_bind)

lemma calm_sure: "reliable E \<Longrightarrow> calm E m \<Longrightarrow> sure m"
  by (simp add: calm_def sure_def lapses_def)

lemma boot_prologue_returns:
  assumes rel: "reliable E" and up: "urlparse E iso_path \<noteq> None"
    and sz: "announced_size (http E (trace w) (HttpHead iso_path)) = Some n"
  shows "boot_prologue E self iso_path w
           = (Inr (n, bmc_url self), snd (boot_prologue E self iso_path w))"
proof -
  let ?rest = "io_bind (extract_server E iso_path) (\<lambda>server.
                 io_seq (prepare_imc E self server)
                (io_seq (restart_redfish E self)
                (io_bind (create_imc_rsh E self) (\<lambda>imc.
                 io_return (n, imc)))))"
  have "sure ?rest"
    by (intro sure_bind sure_seq sure_extract_server [OF up] sure_return
          calm_sure [OF rel calm_prepare_imc] calm_sure [OF rel calm_restart_redfish]
          calm_sure [OF rel calm_create_imc_rsh])
  from behaves_returns [OF this [unfolded sure_def], of "emit E (HttpHead iso_path) w"]
  obtain x where x: "fst (?rest (emit E (HttpHead iso_path) w)) = Inr x" by blast
  have "boot_prologue E self iso_path w = ?rest (emit E (HttpHead iso_path) w)"
    by (simp add: boot_prologue_def io_bind_def [of "url_get_size E iso_path"]
          url_get_size_run sz)
  then have "fst (boot_prologue E self iso_path w) = Inr x" using x by simp
  then have p: "boot_prologue E self iso_path w
                  = (Inr (fst x, snd x), snd (boot_prologue E self iso_path w))"
    by (metis prod.collapse)
  from boot_prologue_value [OF p] sz have "fst x = n" and "snd x = bmc_url self" by simp_all
  then show ?thesis using p by simp
qed

text \<open>
  C7, as the code has it. Take a call of \<^verbatim>\<open>boot_iso_with_redfish\<close> that reaches the skip
  test: its first lines have returned the size \<open>n\<close> that the HEAD request announced and
  the console session. If the marker file read on the console then equals the image URL
  and the \<^verbatim>\<open>du\<close> that follows gives \<open>n\<close>, the call deletes nothing and sends no
  InsertMedia action. Otherwise (the size is not even asked when the marker differs) it
  logs into the console to delete the stale image: when that login raises, there is no
  deletion and no InsertMedia action; when the \<^verbatim>\<open>rm\<close> raises, there is the deletion and no
  InsertMedia action; when neither raises, there is the deletion and then one InsertMedia
  action, whatever happens later. A call whose first lines raise deletes and inserts nothing.
\<close>

theorem insert_skipped_on_match_else_once:
  "(boot_prologue E self iso_path w = (Inr (n, imc), w1)
      \<longrightarrow> imc = bmc_url self
          \<and> announced_size (http E (trace w) (HttpHead iso_path)) = Some n
          \<and> inserts (events_of (boot_iso_with_redfish E self iso_path) w)
              = (if skip_test E imc iso_path n (trace w1) then []
                 else if host E (after_test E imc iso_path (trace w1)) (console_login self)
                           = HostRaised
                 then []
                 else if host E (after_test E imc iso_path (trace w1) @ [console_login self])
                           (stale_rm imc) = HostRaised
                 then [KCleanup]
                 else [KCleanup, KInsert]))
   \<and> (fst (boot_prologue E self iso_path w) = Inl e
      \<longrightarrow> fst (boot_iso_with_redfish E self iso_path w) = Inl e
          \<and> inserts (events_of (boot_iso_with_redfish E self iso_path) w) = [])"
  using boot_prologue_value [of E self iso_path w n imc w1]
    boot_inserts [of E self iso_path w n imc w1]
    boot_prologue_raises [of E self iso_path w e]
  by blast

lemma py_int_999: "py_int ''999'' = Some 999"
  by (simp add: py_int_def py_strip_def is_space_def is_digit_def)

lemma first_token_du_999: "first_token ''999 /mnt/imc/acc-os.iso'' = Some ''999''"
  by (simp add: first_token_def is_space_def)

lemma env_match_answers:
  "http env_match tr ev
     = Responded \<lparr>status_code = 200, content_length = Some ''1000'', body = NotJson\<rparr>"
  "host env_match tr (marker_read h) = HostDone 0 ''http://srv/rhel.iso'' []"
  "host env_match tr (size_read h) = HostDone 0 ''1000 /mnt/imc/acc-os.iso'' []"
  "urlparse env_match u \<noteq> None"
  by (simp_all add: env_match_def marker_read_def size_read_def)

lemma env_resized_answers:
  "http env_resized tr ev
     = Responded \<lparr>status_code = 200, content_length = Some ''1000'', body = NotJson\<rparr>"
  "host env_resized tr (marker_read h) = HostDone 0 ''http://srv/rhel.iso'' []"
  "host env_resized tr (size_read h) = HostDone 0 ''999 /mnt/imc/acc-os.iso'' []"
  "host env_resized tr (console_login self) = HostDone 0 [] []"
  "host env_resized tr (stale_rm h) = HostDone 0 ''999 /mnt/imc/acc-os.iso'' []"
  "urlparse env_resized u \<noteq> None"
  by (simp_all add: env_resized_def marker_read_def size_read_def console_login_def
      stale_rm_def)

lemma env_fresh_answers:
  "http env_fresh tr ev
     = Responded \<lparr>status_code = 200, content_length = Some ''1000'', body = NotJson\<rparr>"
  "host env_fresh tr ev = HostDone 0 [] []"
  "urlparse env_fresh u \<noteq> None"
  by (simp_all add: env_fresh_def)

lemma env_resized_reliable: "reliable env_resized"
  by (simp add: reliable_def env_resized_def split: event.split)

theorem insert_skipped_on_match_else_once_witness:
  "boot_prologue env_match bmc_calvin ''http://srv/rhel.iso'' world0
     = (Inr (1000, ''imc''),
        snd (boot_prologue env_match bmc_calvin ''http://srv/rhel.iso'' world0))
   \<and> skip_test env_match ''imc'' ''http://srv/rhel.iso'' 1000
        (trace (snd (boot_prologue env_match bmc_calvin ''http://srv/rhel.iso'' world0)))
   \<and> inserts (events_of (boot_iso_with_redfish env_match bmc_calvin ''http://srv/rhel.iso'')
        world0) = []
   \<and> boot_prologue env_resized bmc_calvin ''http://srv/rhel.iso'' world0
     = (Inr (1000, ''imc''),
        snd (boot_prologue env_resized bmc_calvin ''http://srv/rhel.iso'' world0))
   \<and> marker_is ''http://srv/rhel.iso''
        (host env_resized
           (trace (snd (boot_prologue env_resized bmc_calvin ''http://srv/rhel.iso'' world0)))
           (marker_read ''imc''))
   \<and> \<not> skip_test env_resized ''imc'' ''http://srv/rhel.iso'' 1000
        (trace (snd (boot_prologue env_resized bmc_calvin ''http://srv/rhel.iso'' world0)))
   \<and> inserts (events_of (boot_iso_with_redfish env_resized bmc_calvin ''http://srv/rhel.iso'')
        world0) = [KCleanup, KInsert]
   \<and> boot_prologue env_fresh bmc_calvin ''http://srv/rhel.iso'' world0
     = (Inr (1000, ''imc''),
        snd (boot_prologue env_fresh bmc_calvin ''http://srv/rhel.iso'' world0))
   \<and> \<not> marker_is ''http://srv/rhel.iso''
        (host env_fresh
           (trace (snd (boot_prologue env_fresh bmc_calvin ''http://srv/rhel.iso'' world0)))
           (marker_read ''imc''))
   \<and> inserts (events_of (boot_iso_with_redfish env_fresh bmc_calvin ''http://srv/rhel.iso'')
        world0) = [KCleanup, KInsert]"
proof -
  let ?U = "''http://srv/rhel.iso''"
  have u: "bmc_url bmc_calvin = ''imc''" by (simp add: bmc_calvin_def IPUBMC_init_def)
  define wm where "wm = snd (boot_prologue env_match bmc_calvin ?U world0)"
  define wr where "wr = snd (boot_prologue env_resized bmc_calvin ?U world0)"
  define wf where "wf = snd (boot_prologue env_fresh bmc_calvin ?U world0)"
  have zm: "announced_size (http env_match (trace world0) (HttpHead ?U)) = Some 1000"
    by (simp add: env_match_answers strip_1000 py_int_1000)
  have zr: "announced_size (http env_resized (trace world0) (HttpHead ?U)) = Some 1000"
    by (simp add: env_resized_answers strip_1000 py_int_1000)
  have zf: "announced_size (http env_fresh (trace world0) (HttpHead ?U)) = Some 1000"
    by (simp add: env_fresh_answers strip_1000 py_int_1000)
  have pm: "boot_prologue env_match bmc_calvin ?U world0 = (Inr (1000, ''imc''), wm)"
    using boot_prologue_returns [OF env_match_reliable env_match_answers(4) zm, of bmc_calvin]
    by (simp only: u wm_def)
  have pr: "boot_prologue env_resized bmc_calvin ?U world0 = (Inr (1000, ''imc''), wr)"
    using boot_prologue_returns [OF env_resized_reliable env_resized_answers(6) zr,
        of bmc_calvin]
    by (simp only: u wr_def)
  have pf: "boot_prologue env_fresh bmc_calvin ?U world0 = (Inr (1000, ''imc''), wf)"
    using boot_prologue_returns [OF env_fresh_reliable env_fresh_answers(3) zf, of bmc_calvin]
    by (simp only: u wf_def)
  have sm: "skip_test env_match ''imc'' ?U 1000 (trace wm)"
    by (simp add: skip_test_def env_match_answers first_token_du py_int_1000)
  have mr: "marker_is ?U (host env_resized (trace wr) (marker_read ''imc''))"
    by (simp add: env_resized_answers)
  have sr: "\<not> skip_test env_resized ''imc'' ?U 1000 (trace wr)"
    by (simp add: skip_test_def env_resized_answers first_token_du_999 py_int_999)
  have mf: "\<not> marker_is ?U (host env_fresh (trace wf) (marker_read ''imc''))"
    by (simp add: env_fresh_answers)
  have sf: "\<not> skip_test env_fresh ''imc'' ?U 1000 (trace wf)"
    using mf by (simp add: skip_test_def)
  have im: "inserts (events_of (boot_iso_with_redfish env_match bmc_calvin ?U) world0) = []"
    using insert_skipped_on_match_else_once
            [where E = env_match and self = bmc_calvin and iso_path = ?U and w = world0
               and n = 1000 and imc = "''imc''" and ?w1.0 = wm]
          pm sm
    by simp
  have ir: "inserts (events_of (boot_iso_with_redfish env_resized bmc_calvin ?U) world0)
              = [KCleanup, KInsert]"
    using insert_skipped_on_match_else_once
            [where E = env_resized and self = bmc_calvin and iso_path = ?U and w = world0
               and n = 1000 and imc = "''imc''" and ?w1.0 = wr]
          pr sr
    by (simp add: env_resized_answers)
  have "inserts (events_of (boot_iso_with_redfish env_fresh bmc_calvin ?U) world0)
              = [KCleanup, KInsert]"
    using insert_skipped_on_match_else_once
            [where E = env_fresh and self = bmc_calvin and iso_path = ?U and w = world0
               and n = 1000 and imc = "''imc''" and ?w1.0 = wf]
          pf sf
    by (simp add: env_fresh_answers)
  then show ?thesis
    using pm sm im pr mr sr ir pf mf
    unfolding wm_def wr_def wf_def by blast
qed

text \<open>
  The claim as stated fails: on a console without the image that refuses the \<^verbatim>\<open>rm\<close>, the
  marker differs from the URL and the call raises without any InsertMedia action.
\<close>

theorem insert_missing_counterexample:
  "\<not> marker_is ''http://srv/rhel.iso''
        (host env_rm_refused
           (trace (snd (boot_prologue env_rm_refused bmc_calvin ''http://srv/rhel.iso'' world0)))
           (marker_read ''imc''))
   \<and> fst (boot_iso_with_redfish env_rm_refused bmc_calvin ''http://srv/rhel.iso'' world0)
       = Inl HostError
   \<and> inserts (events_of (boot_iso_with_redfish env_rm_refused bmc_calvin
                 ''http://srv/rhel.iso'') world0) = [KCleanup]"
proof (intro conjI)
  show "\<not> marker_is ''http://srv/rhel.iso''
        (host env_rm_refused
           (trace (snd (boot_prologue env_rm_refused bmc_calvin ''http://srv/rhel.iso'' world0)))
           (marker_read ''imc''))"
    by (simp add: env_rm_refused_def marker_read_def)
  show "fst (boot_iso_with_redfish env_rm_refused bmc_calvin ''http://srv/rhel.iso'' world0)
       = Inl HostError"
    by (simp add: io_defs client_defs env_rm_refused_def world0_def bmc_calvin_def
        IPUBMC_init_def py_int_1000 strip_1000 imc_url_path_def)
  show "inserts (events_of (boot_iso_with_redfish env_rm_refused bmc_calvin
                 ''http://srv/rhel.iso'') world0) = [KCleanup]"
    by (simp add: io_defs client_defs env_rm_refused_def world0_def bmc_calvin_def
        IPUBMC_init_def py_int_1000 strip_1000 imc_url_path_def events_of_def inserts_def)
qed

subsection \<open>The boot operation on the example worlds\<close>

lemma env_match_boot_returns:
  "fst (boot_iso_with_redfish env_match self ''http://srv/rhel.iso'' w) = Inr ()"
proof -
  have l: "lapses env_match = []" using env_match_reliable by (simp add: lapses_def)
  have x: "behaves (extract_server env_match ''http://srv/rhel.iso'') (\<lambda>_. True) [[]] []"
    using sure_extract_server [of env_match "''http://srv/rhel.iso''"]
    by (simp add: sure_def env_match_def)
  have "behaves (boot_iso_with_redfish env_match self ''http://srv/rhel.iso'') (\<lambda>_. True)
          [[KEnable, KReset, KDisable]]
          ([] @ lapses env_match @ cat (lapses env_match) [[KEnable, KReset]])"
    by (rule boot_behaves_match [OF env_match_size env_match_url env_match_same x])
  then have "behaves (boot_iso_with_redfish env_match self ''http://srv/rhel.iso'') (\<lambda>_. True)
          [[KEnable, KReset, KDisable]] []"
    by (simp add: l cat_def)
  from behaves_returns [OF this, of w] show ?thesis by auto
qed

lemma env_no_length_boot_raises:
  "fst (boot_iso_with_redfish env_no_length self ''http://srv/rhel.iso'' world0)
     = Inl (RuntimeError (FailedToDetermineFileSize ''http://srv/rhel.iso''))"
  by (simp add: boot_iso_with_redfish_def url_get_size_def http_call_def io_bind_def
      io_catch_def io_return_def io_raise_def env_no_length_def)

subsection \<open>The boot-source override\<close>

text \<open>
  C2, as the code has it. When \<^verbatim>\<open>boot_iso_with_redfish\<close> returns, it has sent one PATCH
  enabling the one-shot Cd override and, after it, one PATCH disabling it. Nothing
  clears the override on the way out of a failure: when the call raises, it has sent
  no disabling PATCH, whether or not it had sent the enabling one.
\<close>

theorem override_cleared_on_return_only:
  "(fst (boot_iso_with_redfish E self iso_path w) = Inr ()
      \<longrightarrow> overrides (events_of (boot_iso_with_redfish E self iso_path) w) = [KEnable, KDisable])
   \<and> (fst (boot_iso_with_redfish E self iso_path w) \<noteq> Inr ()
      \<longrightarrow> overrides (events_of (boot_iso_with_redfish E self iso_path) w) = []
          \<or> overrides (events_of (boot_iso_with_redfish E self iso_path) w) = [KEnable])"
  using behaves_keys [OF boot_behaves, of E self iso_path w]
  by (cases "fst (boot_iso_with_redfish E self iso_path w)") (auto simp: overrides_def)

theorem override_cleared_on_return_only_witness:
  "fst (boot_iso_with_redfish env_match bmc_calvin ''http://srv/rhel.iso'' world0) = Inr ()
   \<and> overrides (events_of (boot_iso_with_redfish env_match bmc_calvin ''http://srv/rhel.iso'')
        world0) = [KEnable, KDisable]
   \<and> fst (boot_iso_with_redfish env_no_length bmc_calvin ''http://srv/rhel.iso'' world0) \<noteq> Inr ()
   \<and> (overrides (events_of (boot_iso_with_redfish env_no_length bmc_calvin
          ''http://srv/rhel.iso'') world0) = []
       \<or> overrides (events_of (boot_iso_with_redfish env_no_length bmc_calvin
          ''http://srv/rhel.iso'') world0) = [KEnable])"
  using override_cleared_on_return_only
          [of env_match bmc_calvin "''http://srv/rhel.iso''" world0]
        override_cleared_on_return_only
          [of env_no_length bmc_calvin "''http://srv/rhel.iso''" world0]
        env_match_boot_returns [of bmc_calvin world0]
        env_no_length_boot_raises [of bmc_calvin]
  by simp

text \<open>
  The claim as stated fails: on a console that is lost after the reset, the call raises
  with the override enabled and not disabled.
\<close>

theorem override_left_enabled_counterexample:
  "fst (boot_iso_with_redfish env_console_lost bmc_calvin ''http://srv/rhel.iso'' world0)
     = Inl HostError
   \<and> overrides (events_of (boot_iso_with_redfish env_console_lost bmc_calvin
                      ''http://srv/rhel.iso'') world0) = [KEnable]"
  by (simp add: io_defs client_defs env_console_lost_def world0_def bmc_calvin_def
      IPUBMC_init_def py_int_1000 strip_1000 first_token_du shlex_quote_iso_file
      imc_url_path_def events_of_def overrides_def redfish_url_def override_cd_body_def
      boot_field_def ends_with_def starts_with_def)

subsection \<open>The firmware upgrade\<close>

lemma starts_with_iff: "starts_with p s \<longleftrightarrow> (\<exists>post. s = p @ post)"
proof
  assume "starts_with p s"
  then have "s = p @ drop (length p) s"
    unfolding starts_with_def by (metis append_take_drop_id)
  then show "\<exists>post. s = p @ post" ..
next
  assume "\<exists>post. s = p @ post"
  then show "starts_with p s" by (auto simp: starts_with_def)
qed

text \<open>\<open>contains\<close> is containment as a substring.\<close>

lemma contains_iff: "contains sub s \<longleftrightarrow> (\<exists>pre post. s = pre @ sub @ post)"
proof (induction s)
  case Nil
  then show ?case by auto
next
  case (Cons c cs)
  show ?case
  proof
    assume "contains sub (c # cs)"
    then consider "starts_with sub (c # cs)" | "contains sub cs" by auto
    then show "\<exists>pre post. c # cs = pre @ sub @ post"
    proof cases
      case 1
      then obtain post where "c # cs = sub @ post" using starts_with_iff by blast
      then have "c # cs = [] @ sub @ post" by simp
      then show ?thesis by blast
    next
      case 2
      then obtain pre post where "cs = pre @ sub @ post" using Cons.IH by blast
      then have "c # cs = (c # pre) @ sub @ post" by simp
      then show ?thesis by blast
    qed
  next
    assume "\<exists>pre post. c # cs = pre @ sub @ post"
    then obtain pre post where e: "c # cs = pre @ sub @ post" by blast
    show "contains sub (c # cs)"
    proof (cases pre)
      case Nil
      then have "starts_with sub (c # cs)" using e starts_with_iff by auto
      then show ?thesis by simp
    next
      case (Cons a pre')
      then have "cs = pre' @ sub @ post" using e by simp
      then have "contains sub cs" using Cons.IH by blast
      then show ?thesis by simp
    qed
  qed
qed

lemma quiet_redfish_name: "quiet (redfish_name E self)"
  unfolding redfish_name_def
  by (intro quiet_bind quiet_requests_get)
     (simp add: quiet_return quiet_raise split: option.split json.split)

lemma quiet_version_via_ssh: "quiet (version_via_ssh E self)"
  unfolding version_via_ssh_def
  by (intro quiet_bind quiet_catch quiet_seq quiet_ssh_connect quiet_return)
     (simp_all add: quiet_return quiet_raise quiet_bind quiet_read_file)

lemma quiet_is_ipu: "quiet (is_ipu E self)"
  unfolding is_ipu_def
  by (intro quiet_bind quiet_redfish_available)
     (simp add: quiet_bind quiet_redfish_name quiet_version_via_ssh quiet_return)

text \<open>
  C9. When \<^verbatim>\<open>is_ipu\<close> answers false, \<^verbatim>\<open>ensure_firmware\<close> stops at its assertion: it
  raises AssertionError in the world that \<^verbatim>\<open>is_ipu\<close> left, having made no flash call
  and no cold boot.
\<close>

theorem no_flash_unless_ipu:
  assumes "fst (is_ipu E self w) = Inr False"
  shows "ensure_firmware E self force ver w = (Inl AssertionError, snd (is_ipu E self w))
         \<and> keys (events_of (ensure_firmware E self force ver) w) = []"
proof -
  obtain w1 where i: "is_ipu E self w = (Inr False, w1)"
    using assms by (cases "is_ipu E self w") simp
  have e: "ensure_firmware E self force ver w = (Inl AssertionError, w1)"
    using i by (simp add: ensure_firmware_def io_bind_def io_raise_def)
  from quietD [OF quiet_is_ipu, of E self w] i
  obtain evs where "trace w1 = trace w @ evs" and "keys evs = []" by auto
  then have "keys (events_of (ensure_firmware E self force ver) w) = []"
    using e by (simp add: events_of_def)
  then show ?thesis using e i by simp
qed

theorem no_flash_unless_ipu_witness:
  "fst (is_ipu env_other_card bmc_calvin world0) = Inr False
   \<and> fst (ensure_firmware env_other_card bmc_calvin True ''2.5.0'' world0) = Inl AssertionError
   \<and> keys (events_of (ensure_firmware env_other_card bmc_calvin True ''2.5.0'') world0) = []"
proof -
  have h: "fst (is_ipu env_other_card bmc_calvin world0) = Inr False"
    by (simp add: is_ipu_def redfish_available_def redfish_name_def requests_get_def io_defs
        env_other_card_def starts_with_def)
  show ?thesis
    using h no_flash_unless_ipu [OF h, of True "''2.5.0''"] by simp
qed

text \<open>The banner test, when every banner that the console shows contains the version.\<close>

lemma firmware_is_same_value:
  assumes "\<forall>tr rc out err.
             host E tr (Run (bmc_url self) ''cat /etc/issue.net'') = HostDone rc out err
             \<longrightarrow> contains ver out"
    and "fst (firmware_is_same E self ver w) = Inr b"
  shows "b"
  using assms
  by (auto simp: firmware_is_same_def ssh_connect_def run_def host_call_def io_seq_def
      io_bind_def io_return_def split: host_result.splits)

lemma calm_firmware_is_same: "calm E (firmware_is_same E self ver)"
  unfolding firmware_is_same_def
  by (intro calm_seq calm_bind calm_ssh_connect calm_run)
     (simp_all add: calm_return split: prod.split)

text \<open>
  C8. When \<open>force\<close> is false and the banner that \<^verbatim>\<open>cat /etc/issue.net\<close> shows contains
  the target version as a substring, \<^verbatim>\<open>ensure_firmware\<close> makes no flash call and no cold
  boot; when moreover the card is an IPU and the console calls do not raise, it returns
  after the test.
\<close>

theorem no_flash_when_banner_contains_version:
  assumes "\<forall>tr rc out err.
             host E tr (Run (bmc_url self) ''cat /etc/issue.net'') = HostDone rc out err
             \<longrightarrow> (\<exists>pre post. out = pre @ ver @ post)"
  shows "keys (events_of (ensure_firmware E self False ver) w) = []
         \<and> (fst (is_ipu E self w) = Inr True \<and> reliable E
              \<longrightarrow> fst (ensure_firmware E self False ver w) = Inr ())"
proof -
  have c: "\<forall>tr rc out err.
             host E tr (Run (bmc_url self) ''cat /etc/issue.net'') = HostDone rc out err
             \<longrightarrow> contains ver out"
    using assms by (simp add: contains_iff)
  have same: "behaves (firmware_is_same E self ver) (\<lambda>b. b) [[]] (lapses E)"
    by (rule behaves_value [OF calm_firmware_is_same [unfolded calm_def]])
       (rule firmware_is_same_value [OF c])
  have test: "behaves (io_bind (firmware_is_same E self ver) (\<lambda>same. io_return (\<not> same)))
                (\<lambda>p. \<not> p) [[]] (lapses E @ [])"
    by (rule keyless_then [OF same]) (simp add: behaves_return)
  let ?rest = "\<lambda>proceed. if \<not> proceed then io_return ()
              else
                io_bind (host_call E (RunInContainer (fw_up_cmd self ver))) (\<lambda>(rc, out, err).
                  if rc \<noteq> 0 then io_raise (ErrorAndExit FlashFailed)
                  else
                    io_seq (cold_boot E self)
                   (io_bind (firmware_is_same E self ver) (\<lambda>same.
                      if \<not> same then io_raise (ErrorAndExit FirmwareMismatch)
                      else io_return ())))"
  have rest: "behaves (?rest p) (\<lambda>_. True) [[]] []" if "\<not> p" for p
    using that by (simp add: behaves_return)
  have body: "behaves (io_bind (if False then io_return True
                  else io_bind (firmware_is_same E self ver) (\<lambda>same. io_return (\<not> same)))
                ?rest) (\<lambda>_. True) [[]] ((lapses E @ []) @ [])"
    using keyless_then [OF test rest] by simp
  have all: "behaves (ensure_firmware E self False ver) (\<lambda>_. True) [[]] [[]]"
  proof -
    have "behaves (ensure_firmware E self False ver) (\<lambda>_. True) [[]]
            ([[]] @ [[], []])"
      unfolding ensure_firmware_def
    proof (rule keyless_then [OF quiet_behaves [OF quiet_is_ipu]])
      fix ipu
      show "behaves (if \<not> ipu then io_raise AssertionError
               else io_bind (if False then io_return True
                  else io_bind (firmware_is_same E self ver) (\<lambda>same. io_return (\<not> same)))
                ?rest) (\<lambda>_. True) [[]] [[], []]"
      proof (cases ipu)
        case True
        have "behaves (io_bind (if False then io_return True
                  else io_bind (firmware_is_same E self ver) (\<lambda>same. io_return (\<not> same)))
                ?rest) (\<lambda>_. True) [[]] [[], []]"
          by (rule behaves_weaken [OF body]) (simp_all add: lapses_def)
        then show ?thesis using True by simp
      next
        case False
        then show ?thesis by (simp add: behaves_raise)
      qed
    qed
    then show ?thesis by (rule behaves_weaken) simp_all
  qed
  have k: "keys (events_of (ensure_firmware E self False ver) w) = []"
    using behaves_keys [OF all, of w]
    by (cases "fst (ensure_firmware E self False ver w)") simp_all
  have r: "fst (ensure_firmware E self False ver w) = Inr ()"
    if i: "fst (is_ipu E self w) = Inr True" and rel: "reliable E"
  proof -
    obtain w1 where i1: "is_ipu E self w = (Inr True, w1)"
      using i by (cases "is_ipu E self w") simp
    have "behaves (io_bind (if False then io_return True
                  else io_bind (firmware_is_same E self ver) (\<lambda>same. io_return (\<not> same)))
                ?rest) (\<lambda>_. True) [[]] []"
      by (rule behaves_weaken [OF body]) (simp_all add: lapses_def rel)
    from behaves_returns [OF this, of w1]
    have "fst (io_bind (if False then io_return True
                  else io_bind (firmware_is_same E self ver) (\<lambda>same. io_return (\<not> same)))
                ?rest w1) = Inr ()" by auto
    then show ?thesis using i1 by (simp add: ensure_firmware_def io_bind_def [of "is_ipu E self"])
  qed
  show ?thesis using k r by blast
qed

theorem no_flash_when_banner_contains_version_witness:
  "keys (events_of (ensure_firmware env_ipu_2_5_0 bmc_calvin False ''2.5.0'') world0) = []
   \<and> fst (ensure_firmware env_ipu_2_5_0 bmc_calvin False ''2.5.0'' world0) = Inr ()"
proof -
  have h: "\<forall>tr rc out err.
             host env_ipu_2_5_0 tr (Run (bmc_url bmc_calvin) ''cat /etc/issue.net'')
               = HostDone rc out err
             \<longrightarrow> (\<exists>pre post. out = pre @ ''2.5.0'' @ post)"
  proof (intro allI impI)
    fix tr rc out err
    assume "host env_ipu_2_5_0 tr (Run (bmc_url bmc_calvin) ''cat /etc/issue.net'')
              = HostDone rc out err"
    then have "out = [] @ ''2.5.0'' @ ''.117''" by (simp add: env_ipu_2_5_0_def)
    then show "\<exists>pre post. out = pre @ ''2.5.0'' @ post" by blast
  qed
  have i: "fst (is_ipu env_ipu_2_5_0 bmc_calvin world0) = Inr True"
    by (simp add: is_ipu_def redfish_available_def redfish_name_def requests_get_def io_defs
        env_ipu_2_5_0_def starts_with_def)
  have r: "reliable env_ipu_2_5_0" by (simp add: reliable_def env_ipu_2_5_0_def)
  show ?thesis
    using no_flash_when_banner_contains_version [OF h, of world0] i r by simp
qed

subsection \<open>The password of the client\<close>

lemma requests_get_events:
  "events_of (requests_get E self u) w = [HttpGet u (bmc_user self) (bmc_password self)]"
  by (simp add: events_of_def requests_get_def io_defs split: http_result.split body.split)

lemma requests_post_events:
  "events_of (requests_post E self u d) w = [HttpPost u d (bmc_user self) (bmc_password self)]"
  by (simp add: events_of_def requests_post_def io_defs split: http_result.split)

lemma requests_patch_events:
  "events_of (requests_patch E self u d) w = [HttpPatch u d (bmc_user self) (bmc_password self)]"
  by (simp add: events_of_def requests_patch_def io_defs split: http_result.split)

lemma redfish_available_events:
  "events_of (redfish_available E self u) w = [probe_get self u]"
  by (simp add: events_of_def redfish_available_def probe_get_def io_defs
      split: http_result.split)

lemma firmware_is_same_login:
  "take 1 (events_of (firmware_is_same E self ver) w)
     = [SshConnect (bmc_url self) (bmc_user self) (bmc_password self)]"
  by (simp add: events_of_def firmware_is_same_def io_defs split: host_result.split)

lemma create_imc_rsh_events:
  "events_of (create_imc_rsh E self) w = [SshConnect (bmc_url self) ''root'' []]"
  by (simp add: events_of_def create_imc_rsh_def io_defs split: host_result.split)

lemma restart_redfish_login:
  "take 1 (events_of (restart_redfish E self) w) = [SshConnect (bmc_url self) ''root'' []]"
  by (simp add: events_of_def restart_redfish_def io_defs split: host_result.split)

lemma version_via_ssh_login:
  "take 1 (events_of (version_via_ssh E self) w) = [SshConnect (bmc_url self) ''root'' []]"
  by (simp add: events_of_def version_via_ssh_def io_defs split: host_result.split)

text \<open>
  C10, as the code has it. The client keeps the password \<^verbatim>\<open>calvincalvincalvin\<close> when
  the configured one is \<^verbatim>\<open>calvin\<close>, and the configured one otherwise. Every Redfish
  request (GET, POST, PATCH, and the reachability probe) and the SSH login of
  \<^verbatim>\<open>ensure_firmware\<close> authenticate with the configured user and the kept password. The
  console sessions of \<^verbatim>\<open>_create_imc_rsh\<close>, \<^verbatim>\<open>_restart_redfish\<close> and \<^verbatim>\<open>_version_via_ssh\<close>
  log in as root with the empty password, whatever is configured.
\<close>

theorem password_rewritten_for_redfish:
  "bmc_password (IPUBMC_init c hb)
     = (if password c = ''calvin'' then ''calvincalvincalvin'' else password c)
   \<and> events_of (requests_get E (IPUBMC_init c hb) u) w
       = [HttpGet u (user c) (bmc_password (IPUBMC_init c hb))]
   \<and> events_of (requests_post E (IPUBMC_init c hb) u d) w
       = [HttpPost u d (user c) (bmc_password (IPUBMC_init c hb))]
   \<and> events_of (requests_patch E (IPUBMC_init c hb) u d) w
       = [HttpPatch u d (user c) (bmc_password (IPUBMC_init c hb))]
   \<and> events_of (redfish_available E (IPUBMC_init c hb) u) w
       = [HttpGet (''https://'' @ u @ '':8443/redfish/v1/Systems/1'') (user c)
            (bmc_password (IPUBMC_init c hb))]
   \<and> take 1 (events_of (firmware_is_same E (IPUBMC_init c hb) ver) w)
       = [SshConnect (url c) (user c) (bmc_password (IPUBMC_init c hb))]
   \<and> events_of (create_imc_rsh E (IPUBMC_init c hb)) w = [SshConnect (url c) ''root'' []]
   \<and> take 1 (events_of (restart_redfish E (IPUBMC_init c hb)) w)
       = [SshConnect (url c) ''root'' []]
   \<and> take 1 (events_of (version_via_ssh E (IPUBMC_init c hb)) w)
       = [SshConnect (url c) ''root'' []]"
proof -
  have u: "bmc_user (IPUBMC_init c hb) = user c" and l: "bmc_url (IPUBMC_init c hb) = url c"
    by (simp_all add: IPUBMC_init_def Let_def)
  have p: "bmc_password (IPUBMC_init c hb)
     = (if password c = ''calvin'' then ''calvincalvincalvin'' else password c)"
    by (simp add: IPUBMC_init_def Let_def)
  show ?thesis
    using p requests_get_events [of E "IPUBMC_init c hb" u w]
      requests_post_events [of E "IPUBMC_init c hb" u d w]
      requests_patch_events [of E "IPUBMC_init c hb" u d w]
      redfish_available_events [of E "IPUBMC_init c hb" u w]
      firmware_is_same_login [of E "IPUBMC_init c hb" ver w]
      create_imc_rsh_events [of E "IPUBMC_init c hb" w]
      restart_redfish_login [of E "IPUBMC_init c hb" w]
      version_via_ssh_login [of E "IPUBMC_init c hb" w]
    unfolding u l probe_get_def by blast
qed

text \<open>
  The claim as stated fails: with the password \<^verbatim>\<open>calvin\<close> configured, the console
  session is opened with the empty password, not with \<^verbatim>\<open>calvincalvincalvin\<close>.
\<close>

theorem console_login_counterexample:
  "bmc_password bmc_calvin = ''calvincalvincalvin''
   \<and> events_of (create_imc_rsh env_match bmc_calvin) world0 = [SshConnect ''imc'' ''root'' []]"
  using create_imc_rsh_events [of env_match bmc_calvin world0]
  by (simp add: bmc_calvin_def IPUBMC_init_def)

subsection \<open>The firmware version and its two channels\<close>









subsection \<open>Waiting for the media\<close>

lemma requests_get_run:
  "requests_get E self u w
     = (case http E (trace w) (HttpGet u (bmc_user self) (bmc_password self)) of
          RequestFailed e \<Rightarrow> Inl (ErrorAndExit RequestFailedFatal)
        | Responded r \<Rightarrow>
            if 400 \<le> status_code r \<and> status_code r < 600
            then Inl (ErrorAndExit RequestFailedFatal)
            else (case body r of
                    NotJson \<Rightarrow> Inl (ErrorAndExit JsonParseFatal)
                  | Json d \<Rightarrow> Inr d),
        emit E (HttpGet u (bmc_user self) (bmc_password self)) w)"
  by (simp add: requests_get_def io_defs split: http_result.split body.split)

lemma virtual_media_is_inserted_run:
  "snd (virtual_media_is_inserted E self f w) = emit E (media_get self) w"
  "fst (virtual_media_is_inserted E self f w) = Inr b
     \<Longrightarrow> b = reports_inserted f (http E (trace w) (media_get self))"
  "reports_inserted f (http E (trace w) (media_get self))
     \<Longrightarrow> fst (virtual_media_is_inserted E self f w) = Inr True"
  by (auto simp: virtual_media_is_inserted_def requests_get_run media_get_def io_bind_def
        io_return_def
      split: http_result.splits body.splits option.splits json.splits bool.splits if_splits)

lemma virtual_media_is_inserted_fatal:
  "fst (virtual_media_is_inserted E self f w) = Inl e \<Longrightarrow> \<exists>x. e = ErrorAndExit x"
  by (auto simp: virtual_media_is_inserted_def requests_get_run io_bind_def io_return_def
      split: http_result.splits body.splits option.splits json.splits bool.splits if_splits)

lemma log_progress_error:
  "fst (log_progress E imc n w) = Inl e \<Longrightarrow> e = ZeroDivisionError"
proof -
  assume a: "fst (log_progress E imc n w) = Inl e"
  obtain r w1 where g: "get_file_size E imc iso_file w = (r, w1)"
    by (cases "get_file_size E imc iso_file w")
  from behaves_returns [OF sure_get_file_size [unfolded sure_def], of E imc iso_file w] g
  obtain x where "r = Inr x" by auto
  then show ?thesis using a g
    by (auto simp: log_progress_def io_bind_def io_raise_def io_return_def split: if_splits)
qed

lemma log_progress_size:
  "n \<noteq> 0 \<Longrightarrow> n' \<noteq> 0 \<Longrightarrow> log_progress E imc n = log_progress E imc n'"
  by (simp add: log_progress_def)

lemma virtual_media_is_inserted_answer:
  "answers (http E (trace w) (media_get self))
   \<Longrightarrow> virtual_media_is_inserted E self f w
       = (Inr (reports_inserted f (http E (trace w) (media_get self))), emit E (media_get self) w)"
  by (auto simp: virtual_media_is_inserted_def requests_get_run media_get_def io_bind_def
        io_return_def
      split: http_result.splits body.splits option.splits json.splits bool.splits if_splits)

lemma get_file_size_trace:
  "snd (get_file_size E imc iso_file w) = emit E (size_read imc) w"
  by (simp add: get_file_size_def run_def host_call_def io_bind_def io_catch_def io_return_def
      io_raise_def size_read_def split: host_result.split option.split)

lemma get_file_size_returns: "\<exists>x. fst (get_file_size E imc f w) = Inr x"
  using behaves_def sure_get_file_size [unfolded sure_def, of E imc f]
  by (simp add: get_file_size_def run_def host_call_def io_bind_def io_catch_def io_return_def
      io_raise_def split: host_result.split option.split)

lemma log_progress_run:
  "log_progress E imc n w
     = (if n = 0 then Inl ZeroDivisionError else Inr (), emit E (size_read imc) w)"
proof -
  obtain r w1 where g: "get_file_size E imc iso_file w = (r, w1)"
    by (cases "get_file_size E imc iso_file w")
  have w1: "w1 = emit E (size_read imc) w" using get_file_size_trace [of E imc w] g by simp
  obtain x where x: "r = Inr x" using get_file_size_returns [of E imc iso_file w] g by auto
  show ?thesis using g w1 x
    by (simp add: log_progress_def io_bind_def io_raise_def io_return_def Let_def)
qed

lemma sleep_returns: "fst (sleep E k w) = Inr ()"
  by (simp add: sleep_def)

lemma wait_round_run:
  "wait_round E self f imc n lc w
     = (if lc mod 6 = 0
        then emit E (size_read imc) (snd (sleep E 10 (emit E (media_get self) w)))
        else snd (sleep E 10 (emit E (media_get self) w)))"
proof -
  have "snd (virtual_media_is_inserted E self f w) = emit E (media_get self) w"
    by (simp add: virtual_media_is_inserted_def requests_get_run media_get_def io_bind_def
        io_return_def
      split: http_result.splits body.splits option.splits json.splits bool.splits if_splits)
  then show ?thesis by (simp add: wait_round_def log_progress_run io_return_def)
qed

lemma wait_round_trace:
  "trace (wait_round E self f imc n lc w)
     = trace w @ [media_get self, Sleep 10] @ (if lc mod 6 = 0 then [size_read imc] else [])"
  by (simp add: wait_round_run sleep_def emit_def)

lemma wait_round_now: "now w + 10 \<le> now (wait_round E self f imc n lc w)"
  by (simp add: wait_round_run sleep_def emit_def)

lemma wait_loop_step:
  assumes "goes_on E self f n wu lc w"
  shows "wait_loop E self iso_path n f imc wu lc w
           = wait_loop E self iso_path n f imc wu (lc + 1) (wait_round E self f imc n lc w)"
proof -
  define w1 where "w1 = emit E (media_get self) w"
  define w2 where "w2 = snd (sleep E 10 w1)"
  define w3 where "w3 = wait_round E self f imc n lc w"
  have v: "virtual_media_is_inserted E self f w = (Inr False, w1)"
    using assms virtual_media_is_inserted_answer [of E w self f] by (simp add: goes_on_def w1_def)
  have s: "sleep E 10 w1 = (Inr (), w2)"
    using sleep_returns [of E 10 w1] unfolding w2_def by (metis prod.collapse)
  have late: "\<not> wu \<le> now w2" using assms by (simp add: goes_on_def w1_def w2_def)
  have l: "(if lc mod 6 = 0 then log_progress E imc n else io_return ()) w2 = (Inr (), w3)"
    using assms
    by (simp add: goes_on_def wait_round_run log_progress_run io_return_def w1_def w2_def w3_def)
  have "wait_loop E self iso_path n f imc wu lc w
          = wait_loop E self iso_path n f imc wu (lc + 1) w3"
    by (subst wait_loop.simps) (simp only: v s late l prod.case sum.case bool.case if_False)
  then show ?thesis by (simp only: w3_def)
qed

lemma wait_loop_rounds:
  "(\<forall>i<k. goes_on E self f n wu (lc + i) (wait_rounds E self f imc n lc i w))
   \<Longrightarrow> wait_loop E self iso_path n f imc wu lc w
       = wait_loop E self iso_path n f imc wu (lc + k) (wait_rounds E self f imc n lc k w)"
proof (induction k arbitrary: lc w)
  case 0
  then show ?case by simp
next
  case (Suc k)
  have g0: "goes_on E self f n wu lc w" using Suc.prems [rule_format, of 0] by simp
  have "\<forall>i<k. goes_on E self f n wu (lc + 1 + i)
          (wait_rounds E self f imc n (lc + 1) i (wait_round E self f imc n lc w))"
  proof (intro allI impI)
    fix i assume "i < k"
    then have "Suc i < Suc k" by simp
    from Suc.prems [rule_format, OF this] show "goes_on E self f n wu (lc + 1 + i)
          (wait_rounds E self f imc n (lc + 1) i (wait_round E self f imc n lc w))"
      by simp
  qed
  from Suc.IH [OF this] wait_loop_step [OF g0, of iso_path imc] show ?case by simp
qed

lemma wait_loop_success:
  "fst (wait_loop E self iso_path n f imc wu lc w) = Inr ()
   \<Longrightarrow> \<exists>tr. trace (snd (wait_loop E self iso_path n f imc wu lc w)) = tr @ [media_get self]
          \<and> reports_inserted f (http E tr (media_get self))"
proof (induction E self iso_path n f imc wu lc w rule: wait_loop.induct)
  case (1 E self iso_path n f imc wu lc w)
  obtain r1 w1 where v: "virtual_media_is_inserted E self f w = (r1, w1)"
    by (cases "virtual_media_is_inserted E self f w")
  have w1: "w1 = emit E (media_get self) w"
    using virtual_media_is_inserted_run(1) [of E self f w] v by simp
  show ?case
  proof (cases r1)
    case (Inl e)
    then show ?thesis using v "1.prems" by (subst (asm) wait_loop.simps) simp
  next
    case (Inr b)
    show ?thesis
    proof (cases b)
      case True
      have "reports_inserted f (http E (trace w) (media_get self))"
        using virtual_media_is_inserted_run(2) [of E self f w b] v Inr True by simp
      moreover have "wait_loop E self iso_path n f imc wu lc w = (Inr (), w1)"
        using v Inr True by (subst wait_loop.simps) simp
      ultimately show ?thesis using w1 by (intro exI [of _ "trace w"]) (simp add: emit_trace)
    next
      case False
      then have bf: "b = False" by simp
      obtain r2 w2 where s: "sleep E 10 w1 = (r2, w2)" by (cases "sleep E 10 w1")
      have r2: "r2 = Inr ()" using s by (auto simp: sleep_def)
      show ?thesis
      proof (cases "wu \<le> now w2")
        case True
        then show ?thesis using v Inr False s r2 "1.prems"
          by (subst (asm) wait_loop.simps) simp
      next
        case late: False
        let ?lp = "if lc mod 6 = 0 then log_progress E imc n else io_return ()"
        obtain r3 w3 where l: "?lp w2 = (r3, w3)" by (cases "?lp w2")
        show ?thesis
        proof (cases r3)
          case (Inl e)
          then show ?thesis using v Inr False s r2 late l "1.prems"
            by (subst (asm) wait_loop.simps) simp
        next
          case inr3: (Inr u)
          have eq: "wait_loop E self iso_path n f imc wu lc w
                  = wait_loop E self iso_path n f imc wu (lc + 1) w3"
            using v Inr False s r2 late l inr3 by (subst wait_loop.simps) simp
          have "fst (wait_loop E self iso_path n f imc wu (lc + 1) w3) = Inr ()"
            using "1.prems" eq by simp
          from "1.IH" [OF v [symmetric] Inr bf s [symmetric] r2 late l [symmetric] inr3 this]
          show ?thesis using eq by simp
        qed
      qed
    qed
  qed
qed

lemma wait_loop_timeout:
  "fst (wait_loop E self iso_path n f imc wu lc w)
     = Inl (RuntimeError (TimeoutWaitingInserted iso_path))
   \<Longrightarrow> wu \<le> now (snd (wait_loop E self iso_path n f imc wu lc w))"
proof (induction E self iso_path n f imc wu lc w rule: wait_loop.induct)
  case (1 E self iso_path n f imc wu lc w)
  obtain r1 w1 where v: "virtual_media_is_inserted E self f w = (r1, w1)"
    by (cases "virtual_media_is_inserted E self f w")
  show ?case
  proof (cases r1)
    case (Inl e)
    have "e \<noteq> RuntimeError (TimeoutWaitingInserted iso_path)"
      using virtual_media_is_inserted_fatal [of E self f w e] v Inl by auto
    then show ?thesis using v Inl "1.prems" by (subst (asm) wait_loop.simps) simp
  next
    case (Inr b)
    show ?thesis
    proof (cases b)
      case True
      then show ?thesis using v Inr "1.prems" by (subst (asm) wait_loop.simps) simp
    next
      case False
      then have bf: "b = False" by simp
      obtain r2 w2 where s: "sleep E 10 w1 = (r2, w2)" by (cases "sleep E 10 w1")
      have r2: "r2 = Inr ()" using s by (auto simp: sleep_def)
      show ?thesis
      proof (cases "wu \<le> now w2")
        case True
        have "wait_loop E self iso_path n f imc wu lc w
                = (Inl (RuntimeError (TimeoutWaitingInserted iso_path)), w2)"
          using v Inr False s r2 True by (subst wait_loop.simps) simp
        then show ?thesis using True by simp
      next
        case late: False
        let ?lp = "if lc mod 6 = 0 then log_progress E imc n else io_return ()"
        obtain r3 w3 where l: "?lp w2 = (r3, w3)" by (cases "?lp w2")
        show ?thesis
        proof (cases r3)
          case (Inl e)
          have "e \<noteq> RuntimeError (TimeoutWaitingInserted iso_path)"
            using l Inl log_progress_error [of E imc n w2 e]
            by (auto simp: io_return_def split: if_splits)
          moreover have "wait_loop E self iso_path n f imc wu lc w = (Inl e, w3)"
            using v Inr False s r2 late l Inl by (subst wait_loop.simps) simp
          ultimately show ?thesis using "1.prems" by simp
        next
          case inr3: (Inr u)
          have eq: "wait_loop E self iso_path n f imc wu lc w
                  = wait_loop E self iso_path n f imc wu (lc + 1) w3"
            using v Inr False s r2 late l inr3 by (subst wait_loop.simps) simp
          have "fst (wait_loop E self iso_path n f imc wu (lc + 1) w3)
                  = Inl (RuntimeError (TimeoutWaitingInserted iso_path))"
            using "1.prems" eq by simp
          from "1.IH" [OF v [symmetric] Inr bf s [symmetric] r2 late l [symmetric] inr3 this]
          show ?thesis using eq by simp
        qed
      qed
    qed
  qed
qed

lemma wait_loop_size:
  "n \<noteq> 0 \<Longrightarrow> n' \<noteq> 0
   \<Longrightarrow> wait_loop E self iso_path n f imc wu lc w = wait_loop E self iso_path n' f imc wu lc w"
proof (induction E self iso_path n f imc wu lc w rule: wait_loop.induct)
  case (1 E self iso_path n f imc wu lc w)
  have lp: "log_progress E imc n = log_progress E imc n'"
    using "1.prems" by (rule log_progress_size)
  obtain r1 w1 where v: "virtual_media_is_inserted E self f w = (r1, w1)"
    by (cases "virtual_media_is_inserted E self f w")
  show ?case
  proof (cases r1)
    case (Inl e)
    then show ?thesis using v
      by (subst wait_loop.simps, subst (2) wait_loop.simps) simp
  next
    case (Inr b)
    show ?thesis
    proof (cases b)
      case True
      then show ?thesis using v Inr
        by (subst wait_loop.simps, subst (2) wait_loop.simps) simp
    next
      case False
      then have bf: "b = False" by simp
      obtain r2 w2 where s: "sleep E 10 w1 = (r2, w2)" by (cases "sleep E 10 w1")
      have r2: "r2 = Inr ()" using s by (auto simp: sleep_def)
      show ?thesis
      proof (cases "wu \<le> now w2")
        case True
        then show ?thesis using v Inr False s r2
          by (subst wait_loop.simps, subst (2) wait_loop.simps) simp
      next
        case late: False
        let ?lp = "if lc mod 6 = 0 then log_progress E imc n else io_return ()"
        obtain r3 w3 where l: "?lp w2 = (r3, w3)" by (cases "?lp w2")
        have l': "(if lc mod 6 = 0 then log_progress E imc n' else io_return ()) w2 = (r3, w3)"
          using l by (simp only: lp)
        show ?thesis
        proof (cases r3)
          case (Inl e)
          have a: "wait_loop E self iso_path n f imc wu lc w = (Inl e, w3)"
            using v Inr False s r2 late l Inl by (subst wait_loop.simps) simp
          have b: "wait_loop E self iso_path n' f imc wu lc w = (Inl e, w3)"
            using v Inr False s r2 late l' Inl by (subst wait_loop.simps) simp
          show ?thesis using a b by simp
        next
          case inr3: (Inr u)
          have a: "wait_loop E self iso_path n f imc wu lc w
                  = wait_loop E self iso_path n f imc wu (lc + 1) w3"
            using v Inr False s r2 late l inr3 by (subst wait_loop.simps) simp
          have b: "wait_loop E self iso_path n' f imc wu lc w
                  = wait_loop E self iso_path n' f imc wu (lc + 1) w3"
            using v Inr False s r2 late l' inr3 by (subst wait_loop.simps) simp
          from "1.IH" [OF v [symmetric] Inr bf s [symmetric] r2 late l [symmetric] inr3 "1.prems"]
          show ?thesis using a b by simp
        qed
      qed
    qed
  qed
qed

lemma wait_loop_inserted:
  assumes "reports_inserted f (http E (trace w) (media_get self))"
  shows "wait_loop E self iso_path n f imc wu lc w = (Inr (), emit E (media_get self) w)"
proof -
  have "fst (virtual_media_is_inserted E self f w) = Inr True"
    using assms by (rule virtual_media_is_inserted_run(3))
  moreover have "snd (virtual_media_is_inserted E self f w) = emit E (media_get self) w"
    by (rule virtual_media_is_inserted_run(1))
  ultimately have "virtual_media_is_inserted E self f w = (Inr True, emit E (media_get self) w)"
    by (metis prod.collapse)
  then show ?thesis by (subst wait_loop.simps) simp
qed

lemma wait_rounds_trace:
  "trace (wait_rounds E self f imc n lc k w)
     = trace w @ concat (map (\<lambda>i. [media_get self, Sleep 10]
                                   @ (if (lc + i) mod 6 = 0 then [size_read imc] else []))
                           [0..<k])"
proof (induction k arbitrary: lc w)
  case 0
  then show ?case by simp
next
  case (Suc k)
  have "trace (wait_rounds E self f imc n lc (Suc k) w)
          = trace (wait_round E self f imc n lc w)
            @ concat (map (\<lambda>i. [media_get self, Sleep 10]
                                   @ (if (lc + 1 + i) mod 6 = 0 then [size_read imc] else []))
                           [0..<k])"
    using Suc.IH [of "lc + 1" "wait_round E self f imc n lc w"] by simp
  then show ?case
    by (simp only: wait_round_trace map_upt_Suc concat.simps append_assoc add_0_right
          add_Suc_right add_Suc Nat.add_0_right One_nat_def plus_1_eq_Suc)
qed

lemma wait_loop_after_rounds:
  assumes "\<forall>i<k. goes_on E self f n wu (lc + i) (wait_rounds E self f imc n lc i w)"
    and "reports_inserted f (http E (trace (wait_rounds E self f imc n lc k w)) (media_get self))"
  shows "wait_loop E self iso_path n f imc wu lc w
           = (Inr (), emit E (media_get self) (wait_rounds E self f imc n lc k w))"
  using wait_loop_rounds [OF assms(1), of iso_path] wait_loop_inserted [OF assms(2)]
  by simp

lemma wait_loop_expires:
  assumes "\<forall>i<k. goes_on E self f n wu (lc + i) (wait_rounds E self f imc n lc i w)"
    and a: "answers (http E (trace (wait_rounds E self f imc n lc k w)) (media_get self))"
    and r: "\<not> reports_inserted f
              (http E (trace (wait_rounds E self f imc n lc k w)) (media_get self))"
    and d: "wu \<le> now (snd (sleep E 10
                   (emit E (media_get self) (wait_rounds E self f imc n lc k w))))"
  shows "wait_loop E self iso_path n f imc wu lc w
           = (Inl (RuntimeError (TimeoutWaitingInserted iso_path)),
              snd (sleep E 10 (emit E (media_get self) (wait_rounds E self f imc n lc k w))))"
proof -
  define wk where "wk = wait_rounds E self f imc n lc k w"
  define w1 where "w1 = emit E (media_get self) wk"
  define w2 where "w2 = snd (sleep E 10 w1)"
  have v: "virtual_media_is_inserted E self f wk = (Inr False, w1)"
    using a r virtual_media_is_inserted_answer [of E wk self f] by (simp add: wk_def w1_def)
  have s: "sleep E 10 w1 = (Inr (), w2)"
    using sleep_returns [of E 10 w1] unfolding w2_def by (metis prod.collapse)
  have late: "wu \<le> now w2" using d by (simp add: wk_def w1_def w2_def)
  have "wait_loop E self iso_path n f imc wu (lc + k) wk
          = (Inl (RuntimeError (TimeoutWaitingInserted iso_path)), w2)"
    by (subst wait_loop.simps) (simp only: v s late prod.case sum.case bool.case if_True)
  then show ?thesis
    using wait_loop_rounds [OF assms(1), of iso_path] by (simp only: wk_def w1_def w2_def)
qed

text \<open>
  C1, as the code has it. The wait loop of \<^verbatim>\<open>_wait_iso_downloaded\<close> ends with success
  exactly when a poll of the Redfish service reports the media inserted under the file
  name of the URL. After any number \<open>k\<close> of rounds in which the loop goes on, a poll
  that reports the media ends the loop with success at once, and a poll that does not,
  followed by a sleep that ends at or after the deadline (3600 seconds after the
  start), raises the timeout RuntimeError. Each round is the poll and a sleep of 10
  seconds, followed by the read of the size of the file on the console when the count
  of rounds is a multiple of 6; that size is only logged: the run is the same for every
  non-zero expected size.
\<close>

theorem wait_ends_on_inserted_flag:
  "(fst (wait_loop E self iso_path n f imc wu lc w) = Inr ()
      \<longrightarrow> (\<exists>tr. trace (snd (wait_loop E self iso_path n f imc wu lc w)) = tr @ [media_get self]
               \<and> reports_inserted f (http E tr (media_get self))))
   \<and> ((\<forall>i<k. goes_on E self f n wu (lc + i) (wait_rounds E self f imc n lc i w))
       \<and> reports_inserted f
           (http E (trace (wait_rounds E self f imc n lc k w)) (media_get self))
      \<longrightarrow> wait_loop E self iso_path n f imc wu lc w
            = (Inr (), emit E (media_get self) (wait_rounds E self f imc n lc k w)))
   \<and> ((\<forall>i<k. goes_on E self f n wu (lc + i) (wait_rounds E self f imc n lc i w))
       \<and> answers (http E (trace (wait_rounds E self f imc n lc k w)) (media_get self))
       \<and> \<not> reports_inserted f
             (http E (trace (wait_rounds E self f imc n lc k w)) (media_get self))
       \<and> wu \<le> now (snd (sleep E 10
                    (emit E (media_get self) (wait_rounds E self f imc n lc k w))))
      \<longrightarrow> wait_loop E self iso_path n f imc wu lc w
            = (Inl (RuntimeError (TimeoutWaitingInserted iso_path)),
               snd (sleep E 10 (emit E (media_get self) (wait_rounds E self f imc n lc k w)))))
   \<and> trace (wait_rounds E self f imc n lc k w)
       = trace w @ concat (map (\<lambda>i. [media_get self, Sleep 10]
                                     @ (if (lc + i) mod 6 = 0 then [size_read imc] else []))
                             [0..<k])
   \<and> now w + 10 \<le> now (wait_round E self f imc n lc w)
   \<and> (fst (wait_loop E self iso_path n f imc wu lc w)
        = Inl (RuntimeError (TimeoutWaitingInserted iso_path))
      \<longrightarrow> wu \<le> now (snd (wait_loop E self iso_path n f imc wu lc w)))
   \<and> (n \<noteq> 0 \<and> n' \<noteq> 0
      \<longrightarrow> wait_loop E self iso_path n f imc wu lc w = wait_loop E self iso_path n' f imc wu lc w)
   \<and> wait_iso_downloaded E self iso_path n w
       = io_bind (url_extract_filename E iso_path) (\<lambda>filename.
         io_bind (create_imc_rsh E self) (\<lambda>imc.
         wait_loop E self iso_path n filename imc (now w + 3600) 0)) w"
proof (intro conjI impI)
  show "\<exists>tr. trace (snd (wait_loop E self iso_path n f imc wu lc w)) = tr @ [media_get self]
               \<and> reports_inserted f (http E tr (media_get self))"
    if "fst (wait_loop E self iso_path n f imc wu lc w) = Inr ()"
    using that by (rule wait_loop_success)
  show "wait_loop E self iso_path n f imc wu lc w
            = (Inr (), emit E (media_get self) (wait_rounds E self f imc n lc k w))"
    if "(\<forall>i<k. goes_on E self f n wu (lc + i) (wait_rounds E self f imc n lc i w))
       \<and> reports_inserted f
           (http E (trace (wait_rounds E self f imc n lc k w)) (media_get self))"
    using that wait_loop_after_rounds [of k E self f n wu lc imc w iso_path] by blast
  show "wait_loop E self iso_path n f imc wu lc w
            = (Inl (RuntimeError (TimeoutWaitingInserted iso_path)),
               snd (sleep E 10 (emit E (media_get self) (wait_rounds E self f imc n lc k w))))"
    if "(\<forall>i<k. goes_on E self f n wu (lc + i) (wait_rounds E self f imc n lc i w))
       \<and> answers (http E (trace (wait_rounds E self f imc n lc k w)) (media_get self))
       \<and> \<not> reports_inserted f
             (http E (trace (wait_rounds E self f imc n lc k w)) (media_get self))
       \<and> wu \<le> now (snd (sleep E 10
                    (emit E (media_get self) (wait_rounds E self f imc n lc k w))))"
    using that wait_loop_expires [of k E self f n wu lc imc w iso_path] by blast
  show "trace (wait_rounds E self f imc n lc k w)
       = trace w @ concat (map (\<lambda>i. [media_get self, Sleep 10]
                                     @ (if (lc + i) mod 6 = 0 then [size_read imc] else []))
                             [0..<k])"
    by (rule wait_rounds_trace)
  show "now w + 10 \<le> now (wait_round E self f imc n lc w)" by (rule wait_round_now)
  show "wu \<le> now (snd (wait_loop E self iso_path n f imc wu lc w))"
    if "fst (wait_loop E self iso_path n f imc wu lc w)
        = Inl (RuntimeError (TimeoutWaitingInserted iso_path))"
    using that by (rule wait_loop_timeout)
  show "wait_loop E self iso_path n f imc wu lc w = wait_loop E self iso_path n' f imc wu lc w"
    if "n \<noteq> 0 \<and> n' \<noteq> 0"
    using that wait_loop_size [of n n' E self iso_path f imc wu lc w] by blast
  show "wait_iso_downloaded E self iso_path n w
       = io_bind (url_extract_filename E iso_path) (\<lambda>filename.
         io_bind (create_imc_rsh E self) (\<lambda>imc.
         wait_loop E self iso_path n filename imc (now w + 3600) 0)) w"
    by (simp add: wait_iso_downloaded_def monotonic_def io_bind_def [of monotonic] Let_def)
qed

lemma basename_example: "basename ''/rhel.iso'' = ''rhel.iso''"
  by (simp add: basename_def)

lemma first_token_empty_file: "first_token ''0 /mnt/imc/acc-os.iso'' = Some ''0''"
  by (simp add: first_token_def is_space_def)

lemma py_int_0: "py_int ''0'' = Some 0"
  by (simp add: py_int_def py_strip_def is_space_def is_digit_def)

lemma early_reports:
  "reports_inserted ''rhel.iso'' (http env_inserted_early tr (media_get bmc_calvin))"
  by (simp add: env_inserted_early_def)

lemma never_reports:
  "fst (virtual_media_is_inserted env_never_inserted bmc_calvin ''rhel.iso'' w) = Inr False"
  by (simp add: virtual_media_is_inserted_def requests_get_run io_bind_def io_return_def
      env_never_inserted_def)

lemma second_answers:
  "http env_inserted_second tr ev
     = (if Sleep 10 \<in> set tr
        then Responded \<lparr>status_code = 200, content_length = None,
               body = Json [(''Inserted'', JBool True), (''ImageName'', JStr ''rhel.iso'')]\<rparr>
        else Responded \<lparr>status_code = 200, content_length = None,
               body = Json [(''Inserted'', JBool False), (''ImageName'', JStr [])]\<rparr>)"
  "latency env_inserted_second tr ev = 0"
  by (simp_all add: env_inserted_second_def)

lemma never_answers:
  "http env_never_inserted tr ev
     = Responded \<lparr>status_code = 200, content_length = Some ''1000'',
         body = Json [(''Inserted'', JBool False), (''ImageName'', JStr ''rhel.iso'')]\<rparr>"
  "latency env_never_inserted tr (Sleep k) = 3600"
  by (simp_all add: env_never_inserted_def)

theorem wait_ends_on_inserted_flag_witness:
  "goes_on env_inserted_second bmc_calvin ''rhel.iso'' 1000 3600 0 world0
   \<and> reports_inserted ''rhel.iso''
        (http env_inserted_second
           (trace (wait_rounds env_inserted_second bmc_calvin ''rhel.iso'' ''imc'' 1000 0 1 world0))
           (media_get bmc_calvin))
   \<and> fst (wait_loop env_inserted_second bmc_calvin ''http://srv/rhel.iso'' 1000 ''rhel.iso''
        ''imc'' 3600 0 world0) = Inr ()
   \<and> trace (snd (wait_loop env_inserted_second bmc_calvin ''http://srv/rhel.iso'' 1000
        ''rhel.iso'' ''imc'' 3600 0 world0))
       = [media_get bmc_calvin, Sleep 10, size_read ''imc'', media_get bmc_calvin]
   \<and> answers (http env_never_inserted (trace world0) (media_get bmc_calvin))
   \<and> \<not> reports_inserted ''rhel.iso''
          (http env_never_inserted (trace world0) (media_get bmc_calvin))
   \<and> 10 \<le> now (snd (sleep env_never_inserted 10
                  (emit env_never_inserted (media_get bmc_calvin) world0)))
   \<and> fst (wait_loop env_never_inserted bmc_calvin ''http://srv/rhel.iso'' 1000 ''rhel.iso''
        ''imc'' 10 0 world0)
       = Inl (RuntimeError (TimeoutWaitingInserted ''http://srv/rhel.iso''))
   \<and> 10 \<le> now (snd (wait_loop env_never_inserted bmc_calvin ''http://srv/rhel.iso'' 1000
        ''rhel.iso'' ''imc'' 10 0 world0))
   \<and> (1000::int) \<noteq> 0 \<and> (2000::int) \<noteq> 0
   \<and> wait_loop env_inserted_second bmc_calvin ''http://srv/rhel.iso'' 1000 ''rhel.iso'' ''imc''
        3600 0 world0
       = wait_loop env_inserted_second bmc_calvin ''http://srv/rhel.iso'' 2000 ''rhel.iso'' ''imc''
        3600 0 world0"
proof -
  note A = wait_ends_on_inserted_flag
          [where E = env_inserted_second and self = bmc_calvin
             and iso_path = "''http://srv/rhel.iso''" and n = 1000 and f = "''rhel.iso''"
             and imc = "''imc''" and wu = 3600 and lc = 0 and w = world0 and k = 1
             and n' = 2000]
  note B = wait_ends_on_inserted_flag
          [where E = env_never_inserted and self = bmc_calvin
             and iso_path = "''http://srv/rhel.iso''" and n = 1000 and f = "''rhel.iso''"
             and imc = "''imc''" and wu = 10 and lc = 0 and w = world0 and k = 0
             and n' = 2000]
  let ?w1 = "wait_rounds env_inserted_second bmc_calvin ''rhel.iso'' ''imc'' 1000 0 1 world0"
  have g0: "goes_on env_inserted_second bmc_calvin ''rhel.iso'' 1000 3600 0 world0"
    by (simp add: goes_on_def second_answers world0_def sleep_def emit_def)
  have a1: "\<forall>i<1. goes_on env_inserted_second bmc_calvin ''rhel.iso'' 1000 3600 (0 + i)
             (wait_rounds env_inserted_second bmc_calvin ''rhel.iso'' ''imc'' 1000 0 i world0)"
    using g0 by simp
  have t1: "trace ?w1 = [media_get bmc_calvin, Sleep 10, size_read ''imc'']"
    by (simp add: wait_round_trace world0_def)
  have a2: "reports_inserted ''rhel.iso''
              (http env_inserted_second (trace ?w1) (media_get bmc_calvin))"
    by (simp only: t1) (simp add: second_answers)
  have a3: "wait_loop env_inserted_second bmc_calvin ''http://srv/rhel.iso'' 1000 ''rhel.iso''
              ''imc'' 3600 0 world0
            = (Inr (), emit env_inserted_second (media_get bmc_calvin) ?w1)"
    using A a1 a2 by blast
  have a4: "fst (wait_loop env_inserted_second bmc_calvin ''http://srv/rhel.iso'' 1000
              ''rhel.iso'' ''imc'' 3600 0 world0) = Inr ()"
    by (simp only: a3 fst_conv)
  have a5: "trace (snd (wait_loop env_inserted_second bmc_calvin ''http://srv/rhel.iso'' 1000
              ''rhel.iso'' ''imc'' 3600 0 world0))
            = [media_get bmc_calvin, Sleep 10, size_read ''imc'', media_get bmc_calvin]"
    by (simp only: a3 snd_conv emit_trace t1) simp
  have b0: "\<forall>i<0. goes_on env_never_inserted bmc_calvin ''rhel.iso'' 1000 10 (0 + i)
             (wait_rounds env_never_inserted bmc_calvin ''rhel.iso'' ''imc'' 1000 0 i world0)"
    by simp
  have b1: "answers (http env_never_inserted (trace world0) (media_get bmc_calvin))"
    by (simp add: never_answers)
  have b2: "\<not> reports_inserted ''rhel.iso''
              (http env_never_inserted (trace world0) (media_get bmc_calvin))"
    by (simp add: never_answers)
  have b3: "10 \<le> now (snd (sleep env_never_inserted 10
                  (emit env_never_inserted (media_get bmc_calvin) world0)))"
    by (simp add: sleep_def emit_def)
  have b4: "wait_loop env_never_inserted bmc_calvin ''http://srv/rhel.iso'' 1000 ''rhel.iso''
              ''imc'' 10 0 world0
            = (Inl (RuntimeError (TimeoutWaitingInserted ''http://srv/rhel.iso'')),
               snd (sleep env_never_inserted 10
                  (emit env_never_inserted (media_get bmc_calvin)
                     (wait_rounds env_never_inserted bmc_calvin ''rhel.iso'' ''imc'' 1000 0 0
                        world0))))"
    using B b0 b1 b2 b3 by (simp only: wait_rounds.simps) blast
  have b5: "fst (wait_loop env_never_inserted bmc_calvin ''http://srv/rhel.iso'' 1000 ''rhel.iso''
              ''imc'' 10 0 world0)
            = Inl (RuntimeError (TimeoutWaitingInserted ''http://srv/rhel.iso''))"
    by (simp only: b4 fst_conv)
  have b6: "10 \<le> now (snd (wait_loop env_never_inserted bmc_calvin ''http://srv/rhel.iso'' 1000
              ''rhel.iso'' ''imc'' 10 0 world0))"
    using B b5 by blast
  have n: "(1000::int) \<noteq> 0 \<and> (2000::int) \<noteq> 0" by simp
  have a6: "wait_loop env_inserted_second bmc_calvin ''http://srv/rhel.iso'' 1000 ''rhel.iso''
              ''imc'' 3600 0 world0
            = wait_loop env_inserted_second bmc_calvin ''http://srv/rhel.iso'' 2000 ''rhel.iso''
              ''imc'' 3600 0 world0"
    using A n by blast
  show ?thesis using g0 a2 a4 a5 b1 b2 b3 b5 b6 n a6 by blast
qed

text \<open>
  The claim as stated fails in both directions: the wait succeeds while the file on the
  console is empty, and it times out while the file has the expected size.
\<close>

theorem wait_ignores_file_size_counterexample:
  "fst (get_file_size env_inserted_early ''imc'' iso_file world0) = Inr (Some 0)
   \<and> fst (wait_iso_downloaded env_inserted_early bmc_calvin ''http://srv/rhel.iso'' 1000 world0)
       = Inr ()
   \<and> fst (same_size env_never_inserted ''imc'' 1000 world0) = Inr True
   \<and> fst (wait_iso_downloaded env_never_inserted bmc_calvin ''http://srv/rhel.iso'' 1000 world0)
       = Inl (RuntimeError (TimeoutWaitingInserted ''http://srv/rhel.iso''))"
proof (intro conjI)
  show "fst (get_file_size env_inserted_early ''imc'' iso_file world0) = Inr (Some 0)"
    by (simp add: get_file_size_def run_def host_call_def io_bind_def io_catch_def io_return_def
        env_inserted_early_def first_token_empty_file py_int_0)
  show "fst (same_size env_never_inserted ''imc'' 1000 world0) = Inr True"
    by (simp add: same_size_def get_file_size_def run_def host_call_def io_bind_def io_catch_def
        io_return_def env_never_inserted_def first_token_du py_int_1000)
  have f1: "url_extract_filename env_inserted_early ''http://srv/rhel.iso'' w = (Inr ''rhel.iso'', w)"
    for w
    by (simp add: url_extract_filename_def io_return_def env_inserted_early_def basename_example)
  have c1: "create_imc_rsh env_inserted_early bmc_calvin w
              = (Inr (bmc_url bmc_calvin),
                 emit env_inserted_early (SshConnect (bmc_url bmc_calvin) ''root'' []) w)" for w
    by (simp add: create_imc_rsh_def ssh_connect_def host_call_def io_seq_def io_bind_def
        io_return_def env_inserted_early_def)
  show "fst (wait_iso_downloaded env_inserted_early bmc_calvin ''http://srv/rhel.iso'' 1000 world0)
          = Inr ()"
    by (simp add: wait_iso_downloaded_def monotonic_def io_bind_def f1 c1 Let_def
        wait_loop_inserted [OF early_reports])
  have f2: "url_extract_filename env_never_inserted ''http://srv/rhel.iso'' w = (Inr ''rhel.iso'', w)"
    for w
    by (simp add: url_extract_filename_def io_return_def env_never_inserted_def basename_example)
  have c2: "create_imc_rsh env_never_inserted bmc_calvin w
              = (Inr (bmc_url bmc_calvin),
                 emit env_never_inserted (SshConnect (bmc_url bmc_calvin) ''root'' []) w)" for w
    by (simp add: create_imc_rsh_def ssh_connect_def host_call_def io_seq_def io_bind_def
        io_return_def env_never_inserted_def)
  have v2: "virtual_media_is_inserted env_never_inserted bmc_calvin ''rhel.iso'' w
              = (Inr False, emit env_never_inserted (media_get bmc_calvin) w)" for w
    using never_reports [of w] virtual_media_is_inserted_run(1) [of env_never_inserted bmc_calvin
        "''rhel.iso''" w]
    by (metis prod.collapse)
  have lat: "latency env_never_inserted tr (Sleep k) = 3600" for tr k
    by (simp add: env_never_inserted_def)
  have l2: "fst (wait_loop env_never_inserted bmc_calvin ''http://srv/rhel.iso'' 1000 ''rhel.iso''
               imc (now world0 + 3600) 0 w)
              = Inl (RuntimeError (TimeoutWaitingInserted ''http://srv/rhel.iso''))" for imc w
    by (subst wait_loop.simps) (simp add: v2 sleep_def emit_def lat world0_def)
  show "fst (wait_iso_downloaded env_never_inserted bmc_calvin ''http://srv/rhel.iso'' 1000 world0)
          = Inl (RuntimeError (TimeoutWaitingInserted ''http://srv/rhel.iso''))"
    by (simp add: wait_iso_downloaded_def monotonic_def io_bind_def f2 c2 Let_def l2)
qed

subsection \<open>The liveness loop when nothing answers\<close>

lemma trace_poll: "trace (poll E acc w) = trace w @ [Ping acc, Sleep 20]"
  by (simp add: poll_def sleep_def ping_def emit_def)

lemma rounds_Suc: "rounds acc (Suc k) = rounds acc k @ [Ping acc, Sleep 20]"
proof -
  have "replicate (Suc k) [Ping acc, Sleep 20]
          = replicate k [Ping acc, Sleep 20] @ [[Ping acc, Sleep 20]]"
    by (simp add: replicate_append_same)
  then have "concat (replicate (Suc k) [Ping acc, Sleep 20])
          = concat (replicate k [Ping acc, Sleep 20] @ [[Ping acc, Sleep 20]])"
    by (rule arg_cong)
  then show ?thesis by (simp add: rounds_def del: replicate_Suc)
qed

lemma trace_polls: "trace ((poll E acc ^^ k) w) = trace w @ rounds acc k"
proof (induction k)
  case 0
  then show ?case by (simp add: rounds_def)
next
  case (Suc k)
  then show ?case by (simp add: trace_poll rounds_Suc)
qed

lemma trace_escalate: "trace (escalate E b w) = trace w @ escalation b"
  by (simp add: escalate_def escalation_def emit_def)

lemma reboot_imc_run:
  assumes "reliable E" and "bmc (config self) = Some b"
  shows "reboot_imc E self w = (Inr (), escalate E b w)"
proof -
  have h: "host E tr ev \<noteq> HostRaised" for tr ev using assms(1) by (simp add: reliable_def)
  show ?thesis
    using h [of "trace w" "SshConnect (url b) (user b) (password b)"]
      h [of "trace w @ [SshConnect (url b) (user b) (password b)]" "Run (url b) ''reboot''"]
    by (simp add: reboot_imc_def assms(2) ssh_connect_def run_def host_call_def io_seq_def
        io_bind_def io_return_def escalate_def emit_trace split: host_result.split)
qed

lemma acc_loop_unanswered:
  assumes "\<not> pong E (trace w) (Ping acc)"
  shows "acc_loop E self acc t f w
           = (if t - 20 \<le> 0 then expire E self acc f (poll E acc w)
              else acc_loop E self acc (t - 20) f (poll E acc w))"
  using assms
  by (subst acc_loop.simps) (simp add: ping_def sleep_def poll_def expire_def)

lemma acc_loop_countdown:
  assumes "\<forall>tr ev. \<not> pong E tr ev"
  shows "20 * int k < t
         \<Longrightarrow> acc_loop E self acc t f w
             = acc_loop E self acc (t - 20 * int k) f ((poll E acc ^^ k) w)"
proof (induction k)
  case 0
  then show ?case by simp
next
  case (Suc k)
  have "acc_loop E self acc t f w
          = acc_loop E self acc (t - 20 * int k) f ((poll E acc ^^ k) w)"
    using Suc by simp
  also have "\<dots> = acc_loop E self acc (t - 20 * int k - 20) f
                      (poll E acc ((poll E acc ^^ k) w))"
    using Suc.prems assms by (subst acc_loop_unanswered) simp_all
  finally show ?case by (simp add: algebra_simps)
qed

lemma acc_loop_stage:
  assumes "\<forall>tr ev. \<not> pong E tr ev"
  shows "acc_loop E self acc t f w = expire E self acc f ((poll E acc ^^ polls_of t) w)"
proof -
  obtain j where j: "polls_of t = Suc j" and lo: "j = 0 \<or> 20 * int j < t"
    and hi: "t - 20 * int j \<le> 20"
  proof -
    have "polls_of t = Suc (polls_of t - 1)" by (simp add: polls_of_def)
    moreover have "polls_of t - 1 = 0 \<or> 20 * int (polls_of t - 1) < t"
      by (auto simp: polls_of_def max_def)
    moreover have "t - 20 * int (polls_of t - 1) \<le> 20"
      by (auto simp: polls_of_def max_def)
    ultimately show ?thesis using that by blast
  qed
  have a: "acc_loop E self acc t f w
             = acc_loop E self acc (t - 20 * int j) f ((poll E acc ^^ j) w)"
  proof (cases "j = 0")
    case True
    then show ?thesis by simp
  next
    case False
    then show ?thesis using lo acc_loop_countdown [OF assms] by blast
  qed
  have "acc_loop E self acc (t - 20 * int j) f ((poll E acc ^^ j) w)
          = expire E self acc f (poll E acc ((poll E acc ^^ j) w))"
    using hi assms by (subst acc_loop_unanswered) simp_all
  then show ?thesis using a j by simp
qed

lemma expire_reboot:
  assumes "reliable E" and "bmc (config self) = Some b" and "f + 1 \<noteq> 5"
  shows "expire E self acc f w = acc_loop E self acc 240 (f + 1) (escalate E b w)"
  using assms(3) by (simp add: expire_def reboot_imc_run [OF assms(1,2)])

lemma polls_of_240: "polls_of 240 = 12"
  by (simp add: polls_of_def)

lemma polls_of_1200: "polls_of 1200 = 60"
  by (simp add: polls_of_def)

lemma reboots_rounds: "filter is_reboot (rounds acc k) = []"
  by (induction k) (simp_all add: rounds_def)

lemma reboots_escalation: "filter is_reboot (escalation b) = [Run (url b) ''reboot'']"
  by (simp add: escalation_def)

text \<open>The whole run of the loop when no ping is ever answered.\<close>

lemma acc_loop_never_answered:
  assumes np: "\<forall>tr ev. \<not> pong E tr ev" and rel: "reliable E"
    and b: "bmc (config self) = Some b"
  shows "\<exists>w'. acc_loop E self acc t 0 w = Some (Inl (ErrorAndExit TooManyFailures), w')
           \<and> trace w' = trace w @ rounds acc (polls_of t) @ escalation b
                @ rounds acc 12 @ escalation b @ rounds acc 12 @ escalation b
                @ rounds acc 12 @ escalation b @ rounds acc 12"
proof -
  let ?p = "\<lambda>k w. (poll E acc ^^ k) w"
  let ?w1 = "escalate E b (?p (polls_of t) w)"
  let ?w2 = "escalate E b (?p 12 ?w1)"
  let ?w3 = "escalate E b (?p 12 ?w2)"
  let ?w4 = "escalate E b (?p 12 ?w3)"
  let ?w5 = "?p 12 ?w4"
  have s: "acc_loop E self acc 240 (f + 1) (escalate E b v)
             = expire E self acc (f + 1) (?p 12 (escalate E b v))" for f v
    using acc_loop_stage [OF np, of self acc 240] by (simp add: polls_of_240)
  have "acc_loop E self acc t 0 w = expire E self acc 0 (?p (polls_of t) w)"
    by (rule acc_loop_stage [OF np])
  also have "\<dots> = acc_loop E self acc 240 (0 + 1) ?w1"
    by (rule expire_reboot [OF rel b]) simp
  also have "\<dots> = expire E self acc (0 + 1) (?p 12 ?w1)" by (rule s)
  also have "\<dots> = acc_loop E self acc 240 (0 + 1 + 1) ?w2"
    by (rule expire_reboot [OF rel b]) simp
  also have "\<dots> = expire E self acc (0 + 1 + 1) (?p 12 ?w2)" by (rule s)
  also have "\<dots> = acc_loop E self acc 240 (0 + 1 + 1 + 1) ?w3"
    by (rule expire_reboot [OF rel b]) simp
  also have "\<dots> = expire E self acc (0 + 1 + 1 + 1) (?p 12 ?w3)" by (rule s)
  also have "\<dots> = acc_loop E self acc 240 (0 + 1 + 1 + 1 + 1) ?w4"
    by (rule expire_reboot [OF rel b]) simp
  also have "\<dots> = expire E self acc (0 + 1 + 1 + 1 + 1) ?w5" by (rule s)
  also have "\<dots> = Some (Inl (ErrorAndExit TooManyFailures), ?w5)"
    by (simp add: expire_def)
  finally have r: "acc_loop E self acc t 0 w = Some (Inl (ErrorAndExit TooManyFailures), ?w5)" .
  have "trace ?w5 = trace w @ rounds acc (polls_of t) @ escalation b
                @ rounds acc 12 @ escalation b @ rounds acc 12 @ escalation b
                @ rounds acc 12 @ escalation b @ rounds acc 12"
    by (simp add: trace_polls trace_escalate)
  then show ?thesis using r by blast
qed

text \<open>
  C3, as the code has it. When no liveness poll is ever answered (and the console can
  be reached), \<^verbatim>\<open>_wait_for_acc_with_retry\<close> ends in the fatal exit "Too many failures"
  at the fifth expiry of the countdown. The countdown first lasts the given timeout
  (60 polls of 20 seconds for 1200), then 240 seconds (12 polls) after each reboot. The
  console is rebooted after the first four expiries only: the fifth exits before the
  reboot, so the run has exactly four console reboots.
\<close>

theorem acc_fails_at_fifth_expiry:
  assumes "\<forall>tr ev. \<not> pong E tr ev" and "reliable E" and "bmc (config self) = Some b"
  shows "\<exists>w'. wait_for_acc_with_retry E self acc timeout w
                 = Some (Inl (ErrorAndExit TooManyFailures), w')
           \<and> trace w' = trace w @ rounds acc (polls_of timeout) @ escalation b
                @ rounds acc 12 @ escalation b @ rounds acc 12 @ escalation b
                @ rounds acc 12 @ escalation b @ rounds acc 12
           \<and> console_reboots (drop (length (trace w)) (trace w')) = 4"
proof -
  from acc_loop_never_answered [OF assms, of acc timeout w]
  obtain w' where l: "acc_loop E self acc timeout 0 w
                        = Some (Inl (ErrorAndExit TooManyFailures), w')"
    and t: "trace w' = trace w @ rounds acc (polls_of timeout) @ escalation b
                @ rounds acc 12 @ escalation b @ rounds acc 12 @ escalation b
                @ rounds acc 12 @ escalation b @ rounds acc 12"
    by blast
  have "wait_for_acc_with_retry E self acc timeout w
          = Some (Inl (ErrorAndExit TooManyFailures), w')"
    using l by (simp add: wait_for_acc_with_retry_def)
  moreover have "console_reboots (drop (length (trace w)) (trace w')) = 4"
    by (simp add: t console_reboots_def reboots_rounds reboots_escalation)
  ultimately show ?thesis using t by blast
qed

lemma env_silent_facts:
  "\<forall>tr ev. \<not> pong env_silent tr ev" "reliable env_silent"
  "bmc (config node_calvin) = Some \<lparr>url = ''imc'', user = ''root'', password = ''calvin''\<rparr>"
  by (simp_all add: env_silent_def reliable_def node_calvin_def)

theorem acc_fails_at_fifth_expiry_witness:
  "(\<forall>tr ev. \<not> pong env_silent tr ev) \<and> reliable env_silent
   \<and> bmc (config node_calvin) = Some \<lparr>url = ''imc'', user = ''root'', password = ''calvin''\<rparr>
   \<and> outcome (wait_for_acc_with_retry env_silent node_calvin ''acc'' 1200 world0)
       = Some (Inl (ErrorAndExit TooManyFailures))
   \<and> reboots_of (wait_for_acc_with_retry env_silent node_calvin ''acc'' 1200 world0) = Some 4"
proof -
  from acc_fails_at_fifth_expiry [OF env_silent_facts, of "''acc''" 1200 world0]
  obtain w' where r: "wait_for_acc_with_retry env_silent node_calvin ''acc'' 1200 world0
                 = Some (Inl (ErrorAndExit TooManyFailures), w')"
    and c: "console_reboots (drop (length (trace world0)) (trace w')) = 4"
    by blast
  have "console_reboots (trace w') = 4" using c by (simp add: world0_def)
  then show ?thesis using r env_silent_facts by (simp add: outcome_def reboots_of_def)
qed

text \<open>
  The claim as stated fails: with the default timeout on a card that never answers,
  the run ends in the fatal exit with four console reboots, not five.
\<close>

theorem four_reboots_counterexample:
  "outcome (wait_for_acc_with_retry env_silent node_calvin ''acc'' 1200 world0)
     = Some (Inl (ErrorAndExit TooManyFailures))
   \<and> reboots_of (wait_for_acc_with_retry env_silent node_calvin ''acc'' 1200 world0) = Some 4
   \<and> reboots_of (wait_for_acc_with_retry env_silent node_calvin ''acc'' 1200 world0) \<noteq> Some 5"
proof -
  from acc_loop_never_answered [OF env_silent_facts, of "''acc''" 1200 world0]
  obtain w' where l: "acc_loop env_silent node_calvin ''acc'' 1200 0 world0
                        = Some (Inl (ErrorAndExit TooManyFailures), w')"
    and t: "trace w' = trace world0 @ rounds ''acc'' (polls_of 1200)
                @ escalation \<lparr>url = ''imc'', user = ''root'', password = ''calvin''\<rparr>
                @ rounds ''acc'' 12
                @ escalation \<lparr>url = ''imc'', user = ''root'', password = ''calvin''\<rparr>
                @ rounds ''acc'' 12
                @ escalation \<lparr>url = ''imc'', user = ''root'', password = ''calvin''\<rparr>
                @ rounds ''acc'' 12
                @ escalation \<lparr>url = ''imc'', user = ''root'', password = ''calvin''\<rparr>
                @ rounds ''acc'' 12"
    by blast
  have r: "wait_for_acc_with_retry env_silent node_calvin ''acc'' 1200 world0
          = Some (Inl (ErrorAndExit TooManyFailures), w')"
    using l by (simp add: wait_for_acc_with_retry_def)
  have "console_reboots (trace w') = 4"
    unfolding t
    by (simp add: world0_def console_reboots_def reboots_rounds reboots_escalation
        del: is_reboot.simps)
  then show ?thesis using r by (simp add: outcome_def reboots_of_def)
qed

end
